theory Spec2Isabelle
  imports Main "HOL-Library.AList"
begin

chapter \<open>The model\<close>

text \<open>
  A shallow embedding of the browser-side utilities of the sensor dashboard:
  \<open>PlatformUtils\<close> and \<open>StorageManager\<close> (utilities),
  \<open>NotificationManager\<close> (notifications) and \<open>ChartManager\<close>
  (charts). Every function of the source is a function on explicit state; the platform
  it runs on (timers, the DOM, Web Storage, \<open>JSON\<close>, the chart engine) is
  modelled as far as the source observes it.
\<close>

section \<open>Decimal rendering of integers\<close>

text \<open>
  JavaScript renders an integer-valued number of magnitude below \<open>10^21\<close> as
  its plain decimal digits, with a leading minus sign when negative. Both
  \<open>formatTime\<close> (\<open>Math.floor(...) + suffix\<close>) and
  \<open>JSON.stringify\<close> use this rendering.
\<close>

definition digit_char :: "nat \<Rightarrow> char" where
  "digit_char d = ''0123456789'' ! d"

fun show_nat :: "nat \<Rightarrow> string" where
  "show_nat n = (if n < 10 then [digit_char n] else show_nat (n div 10) @ [digit_char (n mod 10)])"

declare show_nat.simps [simp del]

definition show_int :: "int \<Rightarrow> string" where
  "show_int i = (if i < 0 then CHR ''-'' # show_nat (nat (- i)) else show_nat (nat i))"

section \<open>PlatformUtils.formatTime\<close>

text \<open>
  The argument \<open>date\<close> of \<open>formatTime\<close>: \<open>null\<close> or
  \<open>undefined\<close>, a number of epoch milliseconds, or a \<open>Date\<close>
  object holding a valid time value. (Date strings need the engine's date parser and are
  not modelled.)
\<close>

datatype date_arg = Missing | Millis int | DateObj int

text \<open>
  The test \<open>!date\<close>: \<open>null\<close>, \<open>undefined\<close> and the
  number \<open>0\<close> are falsy; every object is truthy.
\<close>

fun falsy :: "date_arg \<Rightarrow> bool" where
  "falsy Missing = True"
| "falsy (Millis t) = (t = 0)"
| "falsy (DateObj t) = False"

text \<open>
  \<open>new Date(date)\<close>: a time value beyond \<open>8.64e15\<close> ms from the
  epoch gives an invalid date, whose numeric value is \<open>NaN\<close> (here
  \<open>None\<close>).
\<close>

definition time_clip :: "int \<Rightarrow> int option" where
  "time_clip t = (if \<bar>t\<bar> \<le> 8640000000000000 then Some t else None)"

fun new_Date :: "date_arg \<Rightarrow> int option" where
  "new_Date Missing = Some 0"
| "new_Date (Millis t) = time_clip t"
| "new_Date (DateObj t) = Some t"

text \<open>
  The labels of the source, as the UTF-8 bytes of the source file.
\<close>

definition label_never :: string where
  "label_never = [CHR 0xE4, CHR 0xBB, CHR 0x8E, CHR 0xE6, CHR 0x9C, CHR 0xAA,
                  CHR 0xE6, CHR 0x9B, CHR 0xB4, CHR 0xE6, CHR 0x96, CHR 0xB0]"

definition label_just_now :: string where
  "label_just_now = [CHR 0xE5, CHR 0x88, CHR 0x9A, CHR 0xE5, CHR 0x88, CHR 0x9A]"

definition label_minutes :: string where
  "label_minutes = [CHR 0xE5, CHR 0x88, CHR 0x86, CHR 0xE9, CHR 0x92, CHR 0x9F, CHR 0xE5, CHR 0x89, CHR 0x8D]"

definition label_hours :: string where
  "label_hours = [CHR 0xE5, CHR 0xB0, CHR 0x8F, CHR 0xE6, CHR 0x97, CHR 0xB6, CHR 0xE5, CHR 0x89, CHR 0x8D]"

definition label_days :: string where
  "label_days = [CHR 0xE5, CHR 0xA4, CHR 0xA9, CHR 0xE5, CHR 0x89, CHR 0x8D]"

text \<open>
  \<open>formatTime now date\<close>, with \<open>now\<close> the time value of
  \<open>new Date()\<close>. When the target date is invalid, \<open>diff\<close> is
  \<open>NaN\<close>, every comparison is false and the last \<open>return\<close>
  renders \<open>Math.floor(NaN)\<close>.
\<close>

definition formatTime :: "int \<Rightarrow> date_arg \<Rightarrow> string" where
  "formatTime now date =
     (if falsy date then label_never
      else case new_Date date of
        None \<Rightarrow> ''NaN'' @ label_days
      | Some target \<Rightarrow>
          (let diff = now - target in
           if diff < 60000 then label_just_now
           else if diff < 3600000 then show_int (diff div 60000) @ label_minutes
           else if diff < 86400000 then show_int (diff div 3600000) @ label_hours
           else show_int (diff div 86400000) @ label_days))"

section \<open>JavaScript values and JSON\<close>

text \<open>
  The values \<open>StorageManager\<close> handles. \<open>JNum n\<close> stands for an
  integer-valued number (the theorems keep it within the safe range, below
  \<open>2^53\<close> in magnitude); strings are sequences of code units below 256.
  \<open>JObj ps\<close> lists the own enumerable properties of a plain object in the
  engine's enumeration order, and \<open>JArr xs\<close> an array. A structure that
  contains itself is a tree with back-references: \<open>JBack n\<close> points at the
  \<open>n\<close>-th enclosing array or object.
\<close>

datatype jsval =
    JUndefined
  | JNull
  | JBool bool
  | JNum int
  | JStr string
  | JArr "jsval list"
  | JObj "(string \<times> jsval) list"
  | JBack nat

datatype js_error = TypeError | SyntaxError | QuotaExceededError

subsection \<open>Property enumeration order\<close>

text \<open>
  \<open>Object.keys\<close> and \<open>Object.entries\<close> enumerate the own string
  keys of an object with the array indices first (canonical decimal numerals below
  \<open>2^32 - 1\<close>), in ascending numeric order, and then every other key in
  insertion order.
\<close>

definition is_digit :: "char \<Rightarrow> bool" where
  "is_digit c = (48 \<le> (of_char c :: nat) \<and> (of_char c :: nat) \<le> 57)"

definition digit_val :: "char \<Rightarrow> nat" where
  "digit_val c = of_char c - 48"

fun p_digits :: "nat \<Rightarrow> string \<Rightarrow> nat \<times> string" where
  "p_digits acc [] = (acc, [])"
| "p_digits acc (c # r) = (if is_digit c then p_digits (acc * 10 + digit_val c) r else (acc, c # r))"

definition array_index :: "string \<Rightarrow> nat option" where
  "array_index k =
     (if k \<noteq> [] \<and> list_all is_digit k \<and> (k = ''0'' \<or> hd k \<noteq> CHR ''0'') \<and>
         fst (p_digits 0 k) < 4294967295
      then Some (fst (p_digits 0 k)) else None)"

definition own_entries :: "(string \<times> 'a) list \<Rightarrow> (string \<times> 'a) list" where
  "own_entries ps =
     sort_key (\<lambda>p. the (array_index (fst p))) (filter (\<lambda>p. array_index (fst p) \<noteq> None) ps) @
     filter (\<lambda>p. array_index (fst p) = None) ps"

subsection \<open>JSON.stringify\<close>

text \<open>
  Strings are quoted with the escapes of \<open>QuoteJSONString\<close>: the quote, the
  backslash, the short forms for backspace, form feed, newline, carriage return and tab,
  and a backslash with \<open>u00XX\<close> for the other control characters.
\<close>

definition hex_digit :: "nat \<Rightarrow> char" where
  "hex_digit d = ''0123456789abcdef'' ! d"

definition escape_char :: "char \<Rightarrow> string" where
  "escape_char c =
     (if c = CHR 0x22 then [CHR 0x5C, CHR 0x22]
      else if c = CHR 0x5C then [CHR 0x5C, CHR 0x5C]
      else if c = CHR 0x08 then [CHR 0x5C, CHR ''b'']
      else if c = CHR 0x0C then [CHR 0x5C, CHR ''f'']
      else if c = CHR 0x0A then [CHR 0x5C, CHR ''n'']
      else if c = CHR 0x0D then [CHR 0x5C, CHR ''r'']
      else if c = CHR 0x09 then [CHR 0x5C, CHR ''t'']
      else if (of_char c :: nat) < 32
        then [CHR 0x5C, CHR ''u'', CHR ''0'', CHR ''0'',
              hex_digit (of_char c div 16), hex_digit (of_char c mod 16)]
      else [c])"

definition quote :: "string \<Rightarrow> string" where
  "quote s = CHR 0x22 # concat (map escape_char s) @ [CHR 0x22]"

fun join :: "string list \<Rightarrow> string" where
  "join [] = []"
| "join [t] = t"
| "join (t # u # ts) = t @ CHR '','' # join (u # ts)"

text \<open>
  \<open>ser\<close>: \<open>Inr None\<close> is \<open>undefined\<close>. At the top
  level \<open>undefined\<close> has no text; inside an array it becomes
  \<open>null\<close>, and a property holding it is left out. A reference to an
  enclosing array or object is a cycle, which throws \<open>TypeError\<close>.
\<close>

fun ser :: "jsval \<Rightarrow> js_error + string option"
  and ser_elems :: "jsval list \<Rightarrow> js_error + string list"
  and ser_props :: "(string \<times> jsval) list \<Rightarrow> js_error + string list"
where
  "ser JUndefined = Inr None"
| "ser JNull = Inr (Some ''null'')"
| "ser (JBool b) = Inr (Some (if b then ''true'' else ''false''))"
| "ser (JNum n) = Inr (Some (show_int n))"
| "ser (JStr s) = Inr (Some (quote s))"
| "ser (JArr xs) =
     (case ser_elems xs of Inl e \<Rightarrow> Inl e
      | Inr ts \<Rightarrow> Inr (Some (CHR ''['' # join ts @ '']'')))"
| "ser (JObj ps) =
     (case ser_props ps of Inl e \<Rightarrow> Inl e
      | Inr ts \<Rightarrow> Inr (Some (CHR ''{'' # join ts @ ''}'')))"
| "ser (JBack n) = Inl TypeError"
| "ser_elems [] = Inr []"
| "ser_elems (x # xs) =
     (case ser x of Inl e \<Rightarrow> Inl e
      | Inr t \<Rightarrow>
          (case ser_elems xs of Inl e \<Rightarrow> Inl e
           | Inr ts \<Rightarrow> Inr ((case t of None \<Rightarrow> ''null'' | Some s \<Rightarrow> s) # ts)))"
| "ser_props [] = Inr []"
| "ser_props (p # ps) =
     (case ser (snd p) of Inl e \<Rightarrow> Inl e
      | Inr t \<Rightarrow>
          (case ser_props ps of Inl e \<Rightarrow> Inl e
           | Inr ts \<Rightarrow>
               Inr ((case t of None \<Rightarrow> [] | Some s \<Rightarrow> [quote (fst p) @ CHR '':'' # s]) @ ts)))"

definition JSON_stringify :: "jsval \<Rightarrow> js_error + string option" where
  "JSON_stringify v = ser v"

subsection \<open>JSON.parse\<close>

text \<open>
  The outcome of parsing: a value with the rest of the text, a
  \<open>SyntaxError\<close>, or \<open>Unmodelled\<close> for a text whose meaning lies
  outside the modelled values (a number with a fraction or an exponent, negative zero,
  an integer beyond the safe range, a \<open>u\<close> escape above
  \<open>00FF\<close>). The parser is driven by fuel; \<open>Exhausted\<close> marks its
  end, which \<open>JSON_parse\<close> never reaches.
\<close>

datatype 'a parsed = Parsed 'a | SyntaxErr | Unmodelled | Exhausted

definition is_ws :: "char \<Rightarrow> bool" where
  "is_ws c = (c = CHR '' '' \<or> c = CHR 0x09 \<or> c = CHR 0x0A \<or> c = CHR 0x0D)"

definition skip_ws :: "string \<Rightarrow> string" where
  "skip_ws cs = dropWhile is_ws cs"

definition hex_val :: "char \<Rightarrow> nat option" where
  "hex_val c =
     (let n = (of_char c :: nat) in
      if 48 \<le> n \<and> n \<le> 57 then Some (n - 48)
      else if 97 \<le> n \<and> n \<le> 102 then Some (n - 87)
      else if 65 \<le> n \<and> n \<le> 70 then Some (n - 55)
      else None)"

definition hex4 :: "char \<Rightarrow> char \<Rightarrow> char \<Rightarrow> char \<Rightarrow> nat option" where
  "hex4 a b c d =
     (case (hex_val a, hex_val b, hex_val c, hex_val d) of
        (Some x, Some y, Some z, Some w) \<Rightarrow> Some (((x * 16 + y) * 16 + z) * 16 + w)
      | _ \<Rightarrow> None)"

definition unescape :: "char \<Rightarrow> char option" where
  "unescape e =
     (if e = CHR 0x22 then Some (CHR 0x22)
      else if e = CHR 0x5C then Some (CHR 0x5C)
      else if e = CHR ''/'' then Some (CHR ''/'')
      else if e = CHR ''b'' then Some (CHR 0x08)
      else if e = CHR ''f'' then Some (CHR 0x0C)
      else if e = CHR ''n'' then Some (CHR 0x0A)
      else if e = CHR ''r'' then Some (CHR 0x0D)
      else if e = CHR ''t'' then Some (CHR 0x09)
      else None)"

text \<open>
  The characters of a string literal, after its opening quote.
\<close>

fun p_chars :: "string \<Rightarrow> string \<Rightarrow> (string \<times> string) parsed" where
  "p_chars acc [] = SyntaxErr"
| "p_chars acc [c] = (if c = CHR 0x22 then Parsed (acc, []) else SyntaxErr)"
| "p_chars acc (c # e # r) =
     (if c = CHR 0x22 then Parsed (acc, e # r)
      else if c = CHR 0x5C then
        (if e = CHR ''u'' then
           (case r of
              a # b # c' # d # r' \<Rightarrow>
                (case hex4 a b c' d of
                   None \<Rightarrow> SyntaxErr
                 | Some n \<Rightarrow> if n < 256 then p_chars (acc @ [char_of n]) r' else Unmodelled)
            | _ \<Rightarrow> SyntaxErr)
         else (case unescape e of None \<Rightarrow> SyntaxErr | Some x \<Rightarrow> p_chars (acc @ [x]) r))
      else if (of_char c :: nat) < 32 then SyntaxErr
      else p_chars (acc @ [c]) (e # r))"

text \<open>
  A number token: an optional minus sign, then \<open>0\<close> or a non-zero digit
  followed by digits.
\<close>

definition p_number :: "string \<Rightarrow> (jsval \<times> string) parsed" where
  "p_number cs =
     (let neg = (cs \<noteq> [] \<and> hd cs = CHR ''-'');
          ds = (if neg then tl cs else cs)
      in case ds of
           [] \<Rightarrow> SyntaxErr
         | d # r \<Rightarrow>
             if \<not> is_digit d then SyntaxErr
             else
               (let (n, rest) = (if d = CHR ''0'' then (0, r) else p_digits 0 ds) in
                if rest \<noteq> [] \<and> is_digit (hd rest) then SyntaxErr
                else if rest \<noteq> [] \<and> hd rest \<in> {CHR ''.'', CHR ''e'', CHR ''E''} then Unmodelled
                else if neg \<and> n = 0 then Unmodelled
                else if 9007199254740992 \<le> n then Unmodelled
                else Parsed (JNum (if neg then - int n else int n), rest)))"

text \<open>
  Values, the elements of an array after its first bracket, and the members of an
  object. A repeated key keeps its first position and its last value.
\<close>

fun p_value :: "nat \<Rightarrow> string \<Rightarrow> (jsval \<times> string) parsed"
  and p_elems :: "nat \<Rightarrow> jsval list \<Rightarrow> string \<Rightarrow> (jsval \<times> string) parsed"
  and p_members :: "nat \<Rightarrow> (string \<times> jsval) list \<Rightarrow> string \<Rightarrow> (jsval \<times> string) parsed"
where
  "p_value 0 cs = Exhausted"
| "p_value (Suc n) cs =
     (case skip_ws cs of
        [] \<Rightarrow> SyntaxErr
      | c # r \<Rightarrow>
          if c = CHR 0x22 then
            (case p_chars [] r of
               Parsed (s, r') \<Rightarrow> Parsed (JStr s, r')
             | SyntaxErr \<Rightarrow> SyntaxErr
             | Unmodelled \<Rightarrow> Unmodelled
             | Exhausted \<Rightarrow> Exhausted)
          else if c = CHR ''['' then
            (case skip_ws r of
               [] \<Rightarrow> SyntaxErr
             | c' # r' \<Rightarrow> if c' = CHR '']'' then Parsed (JArr [], r') else p_elems n [] r)
          else if c = CHR ''{'' then
            (case skip_ws r of
               [] \<Rightarrow> SyntaxErr
             | c' # r' \<Rightarrow> if c' = CHR ''}'' then Parsed (JObj [], r') else p_members n [] r)
          else if c = CHR ''-'' \<or> is_digit c then p_number (c # r)
          else if take 4 (c # r) = ''true'' then Parsed (JBool True, drop 4 (c # r))
          else if take 5 (c # r) = ''false'' then Parsed (JBool False, drop 5 (c # r))
          else if take 4 (c # r) = ''null'' then Parsed (JNull, drop 4 (c # r))
          else SyntaxErr)"
| "p_elems 0 acc cs = Exhausted"
| "p_elems (Suc n) acc cs =
     (case p_value n cs of
        Parsed (v, r) \<Rightarrow>
          (case skip_ws r of
             [] \<Rightarrow> SyntaxErr
           | c # r' \<Rightarrow>
               if c = CHR '','' then p_elems n (acc @ [v]) r'
               else if c = CHR '']'' then Parsed (JArr (acc @ [v]), r')
               else SyntaxErr)
      | SyntaxErr \<Rightarrow> SyntaxErr
      | Unmodelled \<Rightarrow> Unmodelled
      | Exhausted \<Rightarrow> Exhausted)"
| "p_members 0 acc cs = Exhausted"
| "p_members (Suc n) acc cs =
     (case skip_ws cs of
        [] \<Rightarrow> SyntaxErr
      | q # r \<Rightarrow>
          if q \<noteq> CHR 0x22 then SyntaxErr
          else
            (case p_chars [] r of
               Parsed (k, r1) \<Rightarrow>
                 (case skip_ws r1 of
                    [] \<Rightarrow> SyntaxErr
                  | c1 # r2 \<Rightarrow>
                      if c1 \<noteq> CHR '':'' then SyntaxErr
                      else
                        (case p_value n r2 of
                           Parsed (v, r3) \<Rightarrow>
                             (case skip_ws r3 of
                                [] \<Rightarrow> SyntaxErr
                              | c3 # r4 \<Rightarrow>
                                  if c3 = CHR '','' then p_members n (AList.update k v acc) r4
                                  else if c3 = CHR ''}''
                                    then Parsed (JObj (own_entries (AList.update k v acc)), r4)
                                  else SyntaxErr)
                         | SyntaxErr \<Rightarrow> SyntaxErr
                         | Unmodelled \<Rightarrow> Unmodelled
                         | Exhausted \<Rightarrow> Exhausted))
             | SyntaxErr \<Rightarrow> SyntaxErr
             | Unmodelled \<Rightarrow> Unmodelled
             | Exhausted \<Rightarrow> Exhausted))"

definition JSON_parse :: "string \<Rightarrow> jsval parsed" where
  "JSON_parse text =
     (case p_value (Suc (2 * length text)) text of
        Parsed (v, r) \<Rightarrow> if skip_ws r = [] then Parsed v else SyntaxErr
      | SyntaxErr \<Rightarrow> SyntaxErr
      | Unmodelled \<Rightarrow> Unmodelled
      | Exhausted \<Rightarrow> Exhausted)"

section \<open>StorageManager\<close>

text \<open>
  The medium is Web Storage: an ordered list of key/text pairs with a quota on the total
  number of code units. \<open>setItem\<close> stores the text or throws
  \<open>QuotaExceededError\<close> when the quota would be exceeded;
  \<open>getItem\<close> returns \<open>null\<close> (here \<open>None\<close>) for an
  absent key. The console receives the messages of \<open>console.error\<close>.
\<close>

record env =
  items :: "(string \<times> string) list"
  quota :: nat
  console :: "(string \<times> js_error) list"

definition storage_size :: "(string \<times> string) list \<Rightarrow> nat" where
  "storage_size kvs = sum_list (map (\<lambda>p. length (fst p) + length (snd p)) kvs)"

definition setItem :: "env \<Rightarrow> string \<Rightarrow> string \<Rightarrow> js_error + env" where
  "setItem e k v =
     (let items' = AList.update k v (items e) in
      if storage_size items' \<le> quota e then Inr (e\<lparr>items := items'\<rparr>)
      else Inl QuotaExceededError)"

definition getItem :: "env \<Rightarrow> string \<Rightarrow> string option" where
  "getItem e k = map_of (items e) k"

text \<open>
  \<open>setItem\<close> receives the result of \<open>JSON.stringify\<close>, converted
  to a string: \<open>undefined\<close> becomes the text \<open>''undefined''\<close>.
\<close>

definition to_DOMString :: "string option \<Rightarrow> string" where
  "to_DOMString t = (case t of None \<Rightarrow> ''undefined'' | Some s \<Rightarrow> s)"

definition msg_store_failed :: string where
  "msg_store_failed = [CHR 0xE5, CHR 0xAD, CHR 0x98, CHR 0xE5, CHR 0x82, CHR 0xA8, CHR 0xE5, CHR 0xA4,
                       CHR 0xB1, CHR 0xE8, CHR 0xB4, CHR 0xA5, CHR 0x3A]"

definition msg_read_failed :: string where
  "msg_read_failed = [CHR 0xE8, CHR 0xAF, CHR 0xBB, CHR 0xE5, CHR 0x8F, CHR 0x96, CHR 0xE5, CHR 0xA4,
                      CHR 0xB1, CHR 0xE8, CHR 0xB4, CHR 0xA5, CHR 0x3A]"

definition console_error :: "env \<Rightarrow> string \<Rightarrow> js_error \<Rightarrow> env" where
  "console_error e msg err = e\<lparr>console := console e @ [(msg, err)]\<rparr>"

text \<open>
  \<open>StorageManager.set\<close>: \<open>try\<close> around
  \<open>localStorage.setItem(key, JSON.stringify(value))\<close>; any exception is
  logged and turned into \<open>false\<close>.
\<close>

definition StorageManager_set :: "env \<Rightarrow> string \<Rightarrow> jsval \<Rightarrow> bool \<times> env" where
  "StorageManager_set e key val =
     (case JSON_stringify val of
        Inl err \<Rightarrow> (False, console_error e msg_store_failed err)
      | Inr t \<Rightarrow>
          (case setItem e key (to_DOMString t) of
             Inl err \<Rightarrow> (False, console_error e msg_store_failed err)
           | Inr e' \<Rightarrow> (True, e')))"

text \<open>
  \<open>StorageManager.get\<close>: the default parameter
  \<open>defaultValue = null\<close> replaces an omitted or \<open>undefined\<close>
  argument. The item is parsed when it is truthy (present and not the empty string); a
  \<open>SyntaxError\<close> of the parser is caught, logged and answered with the
  default. The result is \<open>None\<close> where the stored text denotes a value
  outside the model.
\<close>

definition default_param :: "jsval \<Rightarrow> jsval" where
  "default_param d = (if d = JUndefined then JNull else d)"

definition StorageManager_get :: "env \<Rightarrow> string \<Rightarrow> jsval \<Rightarrow> (jsval \<times> env) option" where
  "StorageManager_get e key defaultValue =
     (let d = default_param defaultValue in
      case getItem e key of
        None \<Rightarrow> Some (d, e)
      | Some item \<Rightarrow>
          if item = [] then Some (d, e)
          else
            (case JSON_parse item of
               Parsed v \<Rightarrow> Some (v, e)
             | SyntaxErr \<Rightarrow> Some (d, console_error e msg_read_failed SyntaxError)
             | Unmodelled \<Rightarrow> None
             | Exhausted \<Rightarrow> None))"

section \<open>Timers of the event loop\<close>

text \<open>
  A pending timer: its handle, the time it is due and what its callback captured. Time
  is in milliseconds. Among the timers that are due, the one due first runs first, and
  the one set first among equals.
\<close>

type_synonym 'a timer = "nat \<times> nat \<times> 'a"

definition timer_id :: "'a timer \<Rightarrow> nat" where
  "timer_id t = fst t"

definition due :: "'a timer \<Rightarrow> nat" where
  "due t = fst (snd t)"

definition payload :: "'a timer \<Rightarrow> 'a" where
  "payload t = snd (snd t)"

definition earlier :: "'a timer \<Rightarrow> 'a timer \<Rightarrow> 'a timer" where
  "earlier x y = (if due y < due x then y else x)"

definition next_due :: "nat \<Rightarrow> 'a timer list \<Rightarrow> 'a timer option" where
  "next_due T ts =
     (case filter (\<lambda>t. due t \<le> T) ts of
        [] \<Rightarrow> None
      | x # xs \<Rightarrow> Some (foldl earlier x xs))"

definition cancel :: "nat \<Rightarrow> 'a timer list \<Rightarrow> 'a timer list" where
  "cancel i ts = filter (\<lambda>t. timer_id t \<noteq> i) ts"

section \<open>PlatformUtils.debounce\<close>












section \<open>NotificationManager\<close>

text \<open>
  A notification is a \<open>div\<close> element with its style and its content. The
  manager's state is the nodes created so far (a node is named by its index), the
  children of the container in document order, the pending timers (each captures its
  node) and the clock. (A type that names a property inherited from
  \<open>Object.prototype\<close> is not modelled.)
\<close>

record notification =
  style_cssText :: string
  innerHTML :: string

record notifications =
  nodes :: "notification list"
  children :: "nat list"
  timers :: "nat timer list"
  clock :: nat
  next_timer :: nat


definition colors :: "(string \<times> string) list" where
  "colors = [(''success'', ''#10b981''), (''error'', ''#ef4444''), (''warning'', ''#f59e0b''),
             (''info'', ''#3b82f6'')]"

definition titles :: "(string \<times> string) list" where
  "titles = [(''success'', [CHR 0xE6, CHR 0x88, CHR 0x90, CHR 0xE5, CHR 0x8A, CHR 0x9F]),
             (''error'', [CHR 0xE9, CHR 0x94, CHR 0x99, CHR 0xE8, CHR 0xAF, CHR 0xAF]),
             (''warning'', [CHR 0xE8, CHR 0xAD, CHR 0xA6, CHR 0xE5, CHR 0x91, CHR 0x8A]),
             (''info'', [CHR 0xE4, CHR 0xBF, CHR 0xA1, CHR 0xE6, CHR 0x81, CHR 0xAF])]"

definition getTitle :: "string \<Rightarrow> string" where
  "getTitle type =
     (case map_of titles type of
        Some t \<Rightarrow> t
      | None \<Rightarrow> [CHR 0xE9, CHR 0x80, CHR 0x9A, CHR 0xE7, CHR 0x9F, CHR 0xA5])"

definition make_notification :: "string \<Rightarrow> string \<Rightarrow> notification" where
  "make_notification message type =
     \<lparr>style_cssText =
        ''background: var(--bg-primary); border: 1px solid var(--border-light); '' @
        ''border-left: 4px solid '' @
        (case map_of colors type of Some c \<Rightarrow> c | None \<Rightarrow> ''#3b82f6'') @ ''; '' @
        ''border-radius: 8px; padding: 16px; margin-bottom: 10px; '' @
        ''box-shadow: 0 10px 15px -3px rgba(0,0,0,0.1); '' @
        ''animation: slideInRight 0.3s ease;'',
      innerHTML =
        ''<div style=\"font-weight: 600; margin-bottom: 4px; color: var(--text-primary);\">'' @
        getTitle type @ ''</div>'' @
        ''<div style=\"color: var(--text-secondary); font-size: 0.9rem;\">'' @ message @ ''</div>''\<rparr>"

text \<open>
  \<open>show_notification\<close> (the method \<open>show\<close> of the source): the
  node is appended to the container and, when \<open>duration > 0\<close>, a timer is
  set; the node is returned.
\<close>

definition show_notification :: "notifications \<Rightarrow> string \<Rightarrow> string \<Rightarrow> int \<Rightarrow> nat \<times> notifications" where
  "show_notification st message type duration =
     (let n = length (nodes st);
          st1 = st\<lparr>nodes := nodes st @ [make_notification message type],
                   children := children st @ [n]\<rparr>;
          st2 = (if 0 < duration
                 then st1\<lparr>timers := timers st1 @ [(next_timer st1, clock st1 + nat duration, n)],
                          next_timer := Suc (next_timer st1)\<rparr>
                 else st1)
      in (n, st2))"

text \<open>
  \<open>remove_node\<close> is \<open>notification.remove()\<close>, the manual
  dismissal through the returned node: a node without a parent stays as it is.
  \<open>expire\<close> is the callback of the timer, with its guard
  \<open>if (notification.parentNode)\<close>.
\<close>

definition remove_node :: "nat \<Rightarrow> notifications \<Rightarrow> notifications" where
  "remove_node n st = st\<lparr>children := removeAll n (children st)\<rparr>"

definition expire :: "nat \<Rightarrow> notifications \<Rightarrow> notifications" where
  "expire n st = (if n \<in> set (children st) then remove_node n st else st)"

fun fire_expired :: "nat \<Rightarrow> nat \<Rightarrow> notifications \<Rightarrow> notifications" where
  "fire_expired 0 T st = st\<lparr>clock := max (clock st) T\<rparr>"
| "fire_expired (Suc k) T st =
     (case next_due T (timers st) of
        None \<Rightarrow> st\<lparr>clock := max (clock st) T\<rparr>
      | Some t \<Rightarrow>
          fire_expired k T
            (expire (payload t)
               (st\<lparr>timers := cancel (timer_id t) (timers st),
                   clock := max (clock st) (due t)\<rparr>)))"

definition advance :: "nat \<Rightarrow> notifications \<Rightarrow> notifications" where
  "advance T st = fire_expired (length (timers st)) T st"

text \<open>
  What can happen to a manager: a notification is shown, a node is dismissed by hand,
  time passes.
\<close>

datatype event = Show string string int | Dismiss nat | Wait nat

fun step :: "notifications \<Rightarrow> event \<Rightarrow> notifications" where
  "step st (Show message type duration) = snd (show_notification st message type duration)"
| "step st (Dismiss n) = remove_node n st"
| "step st (Wait T) = advance T st"


section \<open>ChartManager\<close>

text \<open>
  A sensor of the snapshot the caller passes: its display name and its history, which
  may be missing (\<open>None\<close>). The snapshot itself is an object, given as its
  properties in insertion order.
\<close>

record sample =
  timestamp :: jsval
  reading :: jsval

record sensor =
  sensor_name :: string
  history :: "sample list option"

record series =
  series_name :: string
  series_type :: string
  series_data :: "(jsval \<times> jsval) list"
  smooth :: bool

record chart_option =
  title_text :: string
  title_left :: string
  title_textStyle_color :: string
  tooltip_trigger :: string
  tooltip_backgroundColor :: string
  tooltip_borderColor :: string
  tooltip_textStyle_color :: string
  xAxis_type :: string
  xAxis_axisLine_color :: string
  xAxis_axisLabel_color :: string
  yAxis_type :: string
  yAxis_axisLine_color :: string
  yAxis_axisLabel_color :: string
  yAxis_splitLine_color :: string
  yAxis_splitLine_opacity :: string
  series :: "series list"

text \<open>
  The page: the ids of the elements that exist, the chart engine (the instance bound to
  each container, the next fresh instance, the options applied so far), the registry
  \<open>this.charts\<close> of the manager, the \<open>resize\<close> listeners of the
  window in registration order (each is the closure \<open>() => chart.resize()\<close>
  of one instance) and the calls of \<open>resize\<close> so far. Whether
  \<open>echarts.init\<close> returns the instance already bound to a container or a
  fresh one is the engine's choice, \<open>reuse_instance\<close>.
\<close>

record 'o page =
  elements :: "string list"
  reuse_instance :: bool
  bound :: "(string \<times> nat) list"
  next_instance :: nat
  applied :: "(nat \<times> 'o) list"
  charts :: "(string \<times> nat) list"
  resize_listeners :: "nat list"
  resized :: "nat list"
  error_log :: "(string \<times> string) list"

definition msg_no_container :: string where
  "msg_no_container = [CHR 0xE5, CHR 0x9B, CHR 0xBE, CHR 0xE8, CHR 0xA1, CHR 0xA8, CHR 0xE5, CHR 0xAE,
     CHR 0xB9, CHR 0xE5, CHR 0x99, CHR 0xA8, CHR 0xE4, CHR 0xB8, CHR 0x8D, CHR 0xE5, CHR 0xAD, CHR 0x98,
     CHR 0xE5, CHR 0x9C, CHR 0xA8, CHR 0x3A]"

definition new_ChartManager :: "string list \<Rightarrow> bool \<Rightarrow> 'o page" where
  "new_ChartManager ids reuse =
     \<lparr>elements = ids, reuse_instance = reuse, bound = [], next_instance = 0, applied = [],
      charts = [], resize_listeners = [], resized = [], error_log = []\<rparr>"

definition echarts_init :: "'o page \<Rightarrow> string \<Rightarrow> nat \<times> 'o page" where
  "echarts_init st container =
     (case (if reuse_instance st then map_of (bound st) container else None) of
        Some chart \<Rightarrow> (chart, st)
      | None \<Rightarrow>
          (next_instance st,
           st\<lparr>bound := AList.update container (next_instance st) (bound st),
              next_instance := Suc (next_instance st)\<rparr>))"

text \<open>
  \<open>initChart(chartId, options)\<close>. \<open>AList.update\<close> updates the
  entry of an id in place or appends a new one, as \<open>Map.prototype.set\<close>
  does.
\<close>

definition initChart :: "'o page \<Rightarrow> string \<Rightarrow> 'o \<Rightarrow> nat option \<times> 'o page" where
  "initChart st chartId options =
     (if chartId \<notin> set (elements st)
      then (None, st\<lparr>error_log := error_log st @ [(msg_no_container, chartId)]\<rparr>)
      else
        (let (chart, st1) = echarts_init st chartId;
             st2 = st1\<lparr>applied := applied st1 @ [(chart, options)]\<rparr>;
             st3 = st2\<lparr>charts := AList.update chartId chart (charts st2)\<rparr>;
             st4 = st3\<lparr>resize_listeners := resize_listeners st3 @ [chart]\<rparr>
         in (Some chart, st4)))"

text \<open>
  The window fires \<open>resize\<close>: every registered listener runs.
  \<open>resizeAll\<close> resizes the charts of the registry.
\<close>

definition window_resize :: "'o page \<Rightarrow> 'o page" where
  "window_resize st = st\<lparr>resized := resized st @ resize_listeners st\<rparr>"

definition resizeAll :: "'o page \<Rightarrow> 'o page" where
  "resizeAll st = st\<lparr>resized := resized st @ map snd (charts st)\<rparr>"

text \<open>
  The option object of \<open>createSensorTrendChart\<close>, before the series are
  pushed.
\<close>

definition trend_title :: string where
  "trend_title = [CHR 0xE4, CHR 0xBC, CHR 0xA0, CHR 0xE6, CHR 0x84, CHR 0x9F, CHR 0xE5, CHR 0x99,
     CHR 0xA8, CHR 0xE6, CHR 0x95, CHR 0xB0, CHR 0xE6, CHR 0x8D, CHR 0xAE, CHR 0xE8, CHR 0xB6, CHR 0x8B,
     CHR 0xE5, CHR 0x8A, CHR 0xBF]"

definition base_option :: chart_option where
  "base_option =
     \<lparr>title_text = trend_title,
      title_left = ''center'',
      title_textStyle_color = ''var(--text-primary)'',
      tooltip_trigger = ''axis'',
      tooltip_backgroundColor = ''var(--bg-primary)'',
      tooltip_borderColor = ''var(--border-light)'',
      tooltip_textStyle_color = ''var(--text-primary)'',
      xAxis_type = ''time'',
      xAxis_axisLine_color = ''var(--border-light)'',
      xAxis_axisLabel_color = ''var(--text-secondary)'',
      yAxis_type = ''value'',
      yAxis_axisLine_color = ''var(--border-light)'',
      yAxis_axisLabel_color = ''var(--text-secondary)'',
      yAxis_splitLine_color = ''var(--border-light)'',
      yAxis_splitLine_opacity = ''0.3'',
      series = []\<rparr>"

text \<open>
  \<open>has_history\<close> is the test
  \<open>data.history && data.history.length > 0\<close>; \<open>push_series\<close> is
  the body of the \<open>forEach\<close> callback.
\<close>

definition has_history :: "sensor \<Rightarrow> bool" where
  "has_history d = (case history d of None \<Rightarrow> False | Some h \<Rightarrow> 0 < length h)"

definition line_series :: "sensor \<Rightarrow> series" where
  "line_series d =
     \<lparr>series_name = sensor_name d,
      series_type = ''line'',
      series_data =
        map (\<lambda>item. (timestamp item, reading item))
          (case history d of None \<Rightarrow> [] | Some h \<Rightarrow> h),
      smooth = True\<rparr>"

definition push_series :: "series list \<Rightarrow> string \<times> sensor \<Rightarrow> series list" where
  "push_series acc entry = (if has_history (snd entry) then acc @ [line_series (snd entry)] else acc)"

definition trend_option :: "(string \<times> sensor) list option \<Rightarrow> chart_option" where
  "trend_option sensorData =
     (case sensorData of
        None \<Rightarrow> base_option
      | Some m \<Rightarrow>
          if 0 < length (own_entries m)
          then base_option\<lparr>series := foldl push_series [] (own_entries m)\<rparr>
          else base_option)"

definition createSensorTrendChart ::
    "chart_option page \<Rightarrow> string \<Rightarrow> (string \<times> sensor) list option \<Rightarrow> nat option \<times> chart_option page" where
  "createSensorTrendChart st chartId sensorData = initChart st chartId (trend_option sensorData)"

section \<open>Concrete states\<close>

text \<open>
  The inputs at which the theorems below are evaluated.
\<close>

definition env0 :: env where
  "env0 = \<lparr>items = [(''theme'', ''\"dark\"'')], quota = 200, console = []\<rparr>"


definition cyclic0 :: jsval where
  "cyclic0 = JObj [(''name'', JStr ''node''), (''self'', JBack 0)]"


definition page0 :: "nat page" where
  "page0 = new_ChartManager [''c1'', ''c2''] False"

definition page1 :: "nat page" where
  "page1 = new_ChartManager [''c1'', ''c2''] True"

definition page2 :: "chart_option page" where
  "page2 = new_ChartManager [''c1''] True"

definition sensors0 :: "(string \<times> sensor) list" where
  "sensors0 =
     [(''s1'', \<lparr>sensor_name = ''Temp'', history = Some []\<rparr>),
      (''s2'', \<lparr>sensor_name = ''Humidity'',
                history = Some [\<lparr>timestamp = JNum 1000, reading = JNum 20\<rparr>]\<rparr>),
      (''s3'', \<lparr>sensor_name = ''Light'', history = None\<rparr>)]"

definition sensors1 :: "(string \<times> sensor) list" where
  "sensors1 =
     [(''s2'', \<lparr>sensor_name = ''Humidity'',
                history = Some [\<lparr>timestamp = JNum 1000, reading = JNum 20\<rparr>]\<rparr>),
      (''7'', \<lparr>sensor_name = ''Light'',
               history = Some [\<lparr>timestamp = JNum 1000, reading = JNum 300\<rparr>]\<rparr>)]"

section \<open>Predicates of the proofs\<close>

text \<open>
  \<open>dec_value\<close> is the decimal value the digit loop computes;
  \<open>tail_ok\<close> says what may follow a value inside a text;
  \<open>starts_ok\<close> that a text starts with a character of a value;
  \<open>reads_back\<close> that a value is written as a text \<open>p_value\<close>
  reads back, whatever follows.
\<close>

definition dec_value :: "nat \<Rightarrow> string \<Rightarrow> nat" where
  "dec_value acc ds = foldl (\<lambda>a c. a * 10 + digit_val c) acc ds"

definition tail_ok :: "string \<Rightarrow> bool" where
  "tail_ok rest = (rest = [] \<or> hd rest \<in> {CHR '','', CHR '']'', CHR ''}''})"

definition starts_ok :: "string \<Rightarrow> bool" where
  "starts_ok s = (s \<noteq> [] \<and> \<not> is_ws (hd s) \<and> hd s \<noteq> CHR '']'' \<and> hd s \<noteq> CHR ''}'')"

definition reads_back :: "jsval \<Rightarrow> string \<Rightarrow> bool" where
  "reads_back v s =
     (ser v = Inr (Some s) \<and> starts_ok s \<and>
      (\<forall>fuel rest. 2 * length s < fuel \<longrightarrow> tail_ok rest \<longrightarrow>
         p_value fuel (s @ rest) = Parsed (v, rest)))"

definition number_outcome :: "string \<Rightarrow> (jsval \<times> string) parsed \<Rightarrow> bool" where
  "number_outcome ds res =
     (res = SyntaxErr \<or> res = Unmodelled \<or> (\<exists>v r. res = Parsed (v, r) \<and> length r < length ds))"

text \<open>
  The values JSON can carry: no \<open>undefined\<close>, no cycle, integers in the safe
  range, and objects with distinct keys listed in enumeration order.
\<close>

fun json_value :: "jsval \<Rightarrow> bool" where
  "json_value JUndefined = False"
| "json_value JNull = True"
| "json_value (JBool b) = True"
| "json_value (JNum n) = (\<bar>n\<bar> < 9007199254740992)"
| "json_value (JStr s) = True"
| "json_value (JArr xs) = (\<forall>x \<in> set xs. json_value x)"
| "json_value (JObj ps) =
     (distinct (map fst ps) \<and> own_entries ps = ps \<and> (\<forall>p \<in> set ps. json_value (snd p)))"
| "json_value (JBack n) = False"

chapter \<open>Lemmas\<close>

section \<open>Numbers\<close>

lemma show_nat_digit: "n < 10 \<Longrightarrow> show_nat n = [digit_char n]"
  by (simp add: show_nat.simps)

lemma digit_cases: "d < 10 \<Longrightarrow> d = 0 \<or> d = 1 \<or> d = 2 \<or> d = 3 \<or> d = 4 \<or> d = 5 \<or> d = 6 \<or> d = 7 \<or> d = 8 \<or> d = (9::nat)"
  by arith

lemma digit_char_props:
  assumes "d < 10"
  shows "is_digit (digit_char d)" and "digit_val (digit_char d) = d"
    and "digit_char d = CHR ''0'' \<longleftrightarrow> d = 0"
  using digit_cases [OF assms]
  by (auto simp: digit_char_def is_digit_def digit_val_def)

lemma show_nat_digits: "list_all is_digit (show_nat n)"
  by (induction n rule: show_nat.induct) (subst show_nat.simps, simp add: digit_char_props)

lemma show_nat_nonempty: "show_nat n \<noteq> []"
  by (subst show_nat.simps) simp

lemma hd_show_nat_zero: "hd (show_nat n) = CHR ''0'' \<longleftrightarrow> n = 0"
proof (induction n rule: show_nat.induct)
  case (1 n)
  show ?case
  proof (cases "n < 10")
    case True
    then show ?thesis by (subst show_nat.simps) (simp add: digit_char_props)
  next
    case False
    with 1 have "hd (show_nat (n div 10)) \<noteq> CHR ''0''" by simp
    with False show ?thesis
      by (subst show_nat.simps) (simp add: show_nat_nonempty)
  qed
qed

lemma p_digits_append:
  "list_all is_digit ds \<Longrightarrow> rest = [] \<or> \<not> is_digit (hd rest) \<Longrightarrow>
   p_digits acc (ds @ rest) = (dec_value acc ds, rest)"
proof (induction ds arbitrary: acc)
  case Nil
  then show ?case by (cases rest) (auto simp: dec_value_def)
next
  case (Cons d ds)
  then show ?case by (simp add: dec_value_def)
qed

lemma dec_value_show_nat: "dec_value 0 (show_nat n) = n"
proof (induction n rule: show_nat.induct)
  case (1 n)
  show ?case
  proof (cases "n < 10")
    case True
    then show ?thesis by (subst show_nat.simps) (simp add: dec_value_def digit_char_props)
  next
    case False
    with 1 have "dec_value 0 (show_nat (n div 10)) = n div 10" by simp
    with False show ?thesis
      by (subst show_nat.simps) (simp add: dec_value_def digit_char_props)
  qed
qed

lemma tail_ok_not_digit: "tail_ok rest \<Longrightarrow> rest = [] \<or> \<not> is_digit (hd rest)"
  by (auto simp: tail_ok_def is_digit_def)

lemma p_number_show_int:
  assumes "\<bar>i\<bar> < 9007199254740992" and "tail_ok rest"
  shows "p_number (show_int i @ rest) = Parsed (JNum i, rest)"
proof -
  define m where "m = nat \<bar>i\<bar>"
  have pd: "p_digits 0 (show_nat m @ rest) = (m, rest)"
    using p_digits_append [OF show_nat_digits [of m] tail_ok_not_digit [OF assms(2)], of 0]
    by (simp add: dec_value_show_nat)
  obtain d r where dr: "show_nat m = d # r"
    using show_nat_nonempty [of m] by (cases "show_nat m") auto
  have d: "is_digit d" "d = CHR ''0'' \<longleftrightarrow> m = 0" "d \<noteq> CHR ''-''"
    using show_nat_digits [of m] hd_show_nat_zero [of m] dr by (auto simp: is_digit_def)
  have z: "m = 0 \<Longrightarrow> r = []"
    using dr by (simp add: show_nat.simps)
  have t: "\<not> (rest \<noteq> [] \<and> is_digit (hd rest))"
      "\<not> (rest \<noteq> [] \<and> hd rest \<in> {CHR ''.'', CHR ''e'', CHR ''E''})"
    using assms(2) by (auto simp: tail_ok_def is_digit_def)
  have m: "\<not> 9007199254740992 \<le> m" using assms(1) by (simp add: m_def)
  show ?thesis
  proof (cases "i < 0")
    case True
    then have "m \<noteq> 0" and "show_int i = CHR ''-'' # show_nat m" and "- int m = i"
      by (auto simp: m_def show_int_def)
    with pd d t m show ?thesis by (simp add: p_number_def dr)
  next
    case False
    then have "show_int i = show_nat m" and "int m = i"
      by (auto simp: m_def show_int_def)
    then have eq: "show_int i @ rest = d # r @ rest" "int m = i"
      by (simp_all add: dr)
    show ?thesis
    proof (cases "m = 0")
      case True
      with d z t eq show ?thesis by (simp add: p_number_def)
    next
      case False
      with pd d t m eq show ?thesis by (simp add: p_number_def dr)
    qed
  qed
qed

section \<open>Strings\<close>

lemma hex_cases: "d < 16 \<Longrightarrow> d = 0 \<or> d = 1 \<or> d = 2 \<or> d = 3 \<or> d = 4 \<or> d = 5 \<or> d = 6 \<or> d = 7 \<or> d = 8 \<or> d = 9
   \<or> d = 10 \<or> d = 11 \<or> d = 12 \<or> d = 13 \<or> d = 14 \<or> d = (15::nat)"
  by arith

lemma hex_val_hex_digit: "d < 16 \<Longrightarrow> hex_val (hex_digit d) = Some d"
  using hex_cases [of d] by (auto simp: hex_digit_def hex_val_def)

lemma hex4_low:
  assumes "n < 32"
  shows "hex4 (CHR ''0'') (CHR ''0'') (hex_digit (n div 16)) (hex_digit (n mod 16)) = Some n"
proof -
  have "n div 16 < 16" using assms by simp
  then have a: "hex_val (hex_digit (n div 16)) = Some (n div 16)" by (rule hex_val_hex_digit)
  have b: "hex_val (hex_digit (n mod 16)) = Some (n mod 16)" by (rule hex_val_hex_digit) simp
  have z: "hex_val (CHR ''0'') = Some 0" by (simp add: hex_val_def)
  show ?thesis by (simp add: hex4_def a b z)
qed

lemma p_chars_step:
  assumes "\<And>acc'. p_chars acc' following = Parsed (acc' @ s, rest)" and "following \<noteq> []"
  shows "p_chars acc (escape_char c @ following) = Parsed (acc @ c # s, rest)"
proof -
  obtain e r where following: "following = e # r" using assms(2) by (cases following) auto
  have step: "p_chars (acc @ [c]) following = Parsed (acc @ c # s, rest)"
    using assms(1) [of "acc @ [c]"] by simp
  consider (short) "c \<in> {CHR 0x22, CHR 0x5C, CHR 0x08, CHR 0x0C, CHR 0x0A, CHR 0x0D, CHR 0x09}"
    | (ctl) "c \<notin> {CHR 0x22, CHR 0x5C, CHR 0x08, CHR 0x0C, CHR 0x0A, CHR 0x0D, CHR 0x09}"
        "(of_char c :: nat) < 32"
    | (plain) "c \<notin> {CHR 0x22, CHR 0x5C, CHR 0x08, CHR 0x0C, CHR 0x0A, CHR 0x0D, CHR 0x09}"
        "\<not> (of_char c :: nat) < 32"
    by blast
  then show ?thesis
  proof cases
    case short
    then show ?thesis
      using step by (auto simp: escape_char_def unescape_def following)
  next
    case ctl
    have "char_of (of_char c :: nat) = c" by simp
    with ctl show ?thesis
      using step hex4_low [of "of_char c"] by (simp add: escape_char_def following)
  next
    case plain
    then show ?thesis
      using step by (simp add: escape_char_def following)
  qed
qed

lemma p_chars_quote:
  "p_chars acc (concat (map escape_char s) @ CHR 0x22 # rest) = Parsed (acc @ s, rest)"
proof (induction s arbitrary: acc)
  case Nil
  then show ?case by (cases rest) simp_all
next
  case (Cons c s)
  show ?case
    using p_chars_step [of "concat (map escape_char s) @ CHR 0x22 # rest" s rest acc c] Cons.IH
    by simp
qed

section \<open>Every JSON value reads back\<close>

lemma skip_ws_starts_ok: "starts_ok s \<Longrightarrow> skip_ws (s @ r) = s @ r"
  by (cases s) (auto simp: starts_ok_def skip_ws_def)

lemma skip_ws_Cons: "\<not> is_ws c \<Longrightarrow> skip_ws (c # r) = c # r"
  by (simp add: skip_ws_def)

lemma not_ws [simp]:
  "\<not> is_ws (CHR '','')" "\<not> is_ws (CHR '']'')" "\<not> is_ws (CHR ''}'')" "\<not> is_ws (CHR '':'')"
  "\<not> is_ws (CHR ''['')" "\<not> is_ws (CHR ''{'')" "\<not> is_ws (CHR 0x22)"
  by (simp_all add: is_ws_def)

lemma tail_ok_simps [simp]:
  "tail_ok (CHR '','' # r)" "tail_ok (CHR '']'' # r)" "tail_ok (CHR ''}'' # r)" "tail_ok []"
  by (simp_all add: tail_ok_def)

lemma starts_ok_quote [simp]: "starts_ok (quote k @ r)" "starts_ok (quote k)"
  by (simp_all add: starts_ok_def quote_def is_ws_def)

lemma reads_back_atoms:
  "reads_back JNull ''null''"
  "reads_back (JBool b) (if b then ''true'' else ''false'')"
  "reads_back (JStr s) (quote s)"
proof -
  show "reads_back JNull ''null''"
    unfolding reads_back_def
  proof (intro conjI allI impI)
    fix fuel :: nat and rest
    assume "2 * length ''null'' < fuel"
    then obtain n where "fuel = Suc n" by (cases fuel) auto
    then show "p_value fuel (''null'' @ rest) = Parsed (JNull, rest)"
      by (simp add: skip_ws_def is_ws_def is_digit_def)
  qed (simp_all add: starts_ok_def is_ws_def)
  show "reads_back (JBool b) (if b then ''true'' else ''false'')"
    unfolding reads_back_def
  proof (intro conjI allI impI)
    fix fuel :: nat and rest
    assume "2 * length (if b then ''true'' else ''false'') < fuel"
    then obtain n where "fuel = Suc n" by (cases fuel) auto
    then show "p_value fuel ((if b then ''true'' else ''false'') @ rest) = Parsed (JBool b, rest)"
      by (simp add: skip_ws_def is_ws_def is_digit_def)
  qed (simp_all add: starts_ok_def is_ws_def)
  show "reads_back (JStr s) (quote s)"
    unfolding reads_back_def
  proof (intro conjI allI impI)
    fix fuel :: nat and rest
    assume "2 * length (quote s) < fuel"
    then obtain n where "fuel = Suc n" by (cases fuel) auto
    then show "p_value fuel (quote s @ rest) = Parsed (JStr s, rest)"
      using p_chars_quote [of "[]" s rest]
      by (simp add: quote_def skip_ws_def is_ws_def)
  qed simp_all
qed

lemma is_digit_start:
  "is_digit c \<Longrightarrow> \<not> is_ws c \<and> c \<noteq> CHR '']'' \<and> c \<noteq> CHR ''}'' \<and> c \<noteq> CHR 0x22 \<and>
     c \<noteq> CHR ''['' \<and> c \<noteq> CHR ''{'' \<and> c \<noteq> CHR ''-''"
  by (auto simp: is_digit_def is_ws_def)

lemma starts_ok_show_int: "starts_ok (show_int i)"
proof -
  have "is_digit (hd (show_nat m))" for m
    using show_nat_digits [of m] show_nat_nonempty [of m] by (cases "show_nat m") auto
  then have "starts_ok (show_nat m)" for m
    using show_nat_nonempty [of m] is_digit_start [of "hd (show_nat m)"]
    by (simp add: starts_ok_def)
  then show ?thesis
    by (auto simp: show_int_def starts_ok_def is_ws_def)
qed

lemma reads_back_num:
  assumes "\<bar>i\<bar> < 9007199254740992"
  shows "reads_back (JNum i) (show_int i)"
  unfolding reads_back_def
proof (intro conjI allI impI)
  fix fuel :: nat and rest
  assume "2 * length (show_int i) < fuel" and t: "tail_ok rest"
  then obtain n where n: "fuel = Suc n" by (cases fuel) auto
  obtain c r where cr: "show_int i = c # r"
    using starts_ok_show_int [of i] by (cases "show_int i") (auto simp: starts_ok_def)
  have c: "c = CHR ''-'' \<or> is_digit c"
    using cr show_nat_digits [of "nat i"] show_nat_nonempty [of "nat i"]
    by (cases "show_nat (nat i)") (auto simp: show_int_def split: if_splits)
  have q: "c \<noteq> CHR 0x22" "c \<noteq> CHR ''[''" "c \<noteq> CHR ''{''"
    using c by (auto simp: is_digit_def)
  have "skip_ws (show_int i @ rest) = c # r @ rest"
    using skip_ws_starts_ok [OF starts_ok_show_int, of i rest] by (simp add: cr)
  moreover have "p_number (c # r @ rest) = Parsed (JNum i, rest)"
    using p_number_show_int [OF assms t] by (simp add: cr)
  ultimately show "p_value fuel (show_int i @ rest) = Parsed (JNum i, rest)"
    using c q by (simp add: n)
qed (simp_all add: starts_ok_show_int)

lemma starts_ok_join: "starts_ok t \<Longrightarrow> starts_ok (join (t # ts) @ r)"
  by (cases ts) (auto simp: starts_ok_def)

lemma elems_read_back:
  assumes "\<forall>x \<in> set xs. \<exists>s. reads_back x s" and "xs \<noteq> []"
  shows "\<exists>ts. ser_elems xs = Inr ts \<and> ts \<noteq> [] \<and> starts_ok (hd ts) \<and>
      (\<forall>fuel acc rest. 2 * length (join ts) + 1 < fuel \<longrightarrow>
         p_elems fuel acc (join ts @ CHR '']'' # rest) = Parsed (JArr (acc @ xs), rest))"
  using assms
proof (induction xs)
  case Nil
  then show ?case by simp
next
  case (Cons x xs)
  then obtain s where s: "reads_back x s" by auto
  then have sx: "ser x = Inr (Some s)" and so: "starts_ok s"
    and px: "\<And>fuel rest. 2 * length s < fuel \<Longrightarrow> tail_ok rest \<Longrightarrow>
               p_value fuel (s @ rest) = Parsed (x, rest)"
    by (auto simp: reads_back_def)
  show ?case
  proof (cases "xs = []")
    case True
    have "p_elems fuel acc (s @ CHR '']'' # rest) = Parsed (JArr (acc @ [x]), rest)"
      if "2 * length s + 1 < fuel" for fuel acc rest
    proof -
      from that obtain n where n: "fuel = Suc n" "2 * length s < n" by (cases fuel) auto
      show ?thesis
        using px [OF n(2), of "CHR '']'' # rest"] by (simp add: n(1) skip_ws_Cons)
    qed
    with True sx so show ?thesis by simp
  next
    case False
    with Cons obtain ts where ts: "ser_elems xs = Inr ts" "ts \<noteq> []" "starts_ok (hd ts)"
      and pe: "\<And>fuel acc rest. 2 * length (join ts) + 1 < fuel \<Longrightarrow>
                 p_elems fuel acc (join ts @ CHR '']'' # rest) = Parsed (JArr (acc @ xs), rest)"
      by auto
    obtain t ts' where tt: "ts = t # ts'" using ts(2) by (cases ts) auto
    have "p_elems fuel acc (join (s # ts) @ CHR '']'' # rest) = Parsed (JArr (acc @ x # xs), rest)"
      if "2 * length (join (s # ts)) + 1 < fuel" for fuel acc rest
    proof -
      from that obtain n where n: "fuel = Suc n" "2 * length s < n" "2 * length (join ts) + 1 < n"
        by (cases fuel) (auto simp: tt)
      show ?thesis
        using px [OF n(2), of "CHR '','' # join ts @ CHR '']'' # rest"]
          pe [OF n(3), of "acc @ [x]" rest]
        by (simp add: n(1) tt skip_ws_Cons)
    qed
    with sx so ts show ?thesis by simp
  qed
qed

lemma update_fresh: "k \<notin> fst ` set acc \<Longrightarrow> AList.update k v acc = acc @ [(k, v)]"
  by (induction acc) auto

lemma props_read_back:
  assumes "\<forall>p \<in> set ps. \<exists>s. reads_back (snd p) s" and "ps \<noteq> []" and "distinct (map fst ps)"
  shows "\<exists>ts. ser_props ps = Inr ts \<and> ts \<noteq> [] \<and> starts_ok (hd ts) \<and>
      (\<forall>fuel acc rest. 2 * length (join ts) + 1 < fuel \<longrightarrow> fst ` set acc \<inter> fst ` set ps = {} \<longrightarrow>
         p_members fuel acc (join ts @ CHR ''}'' # rest) =
           Parsed (JObj (own_entries (acc @ ps)), rest))"
  using assms
proof (induction ps)
  case Nil
  then show ?case by simp
next
  case (Cons p ps)
  obtain k x where p: "p = (k, x)" by (cases p)
  from Cons.prems obtain s where s: "reads_back x s" by (auto simp: p)
  then have sx: "ser x = Inr (Some s)" and so: "starts_ok s"
    and px: "\<And>fuel rest. 2 * length s < fuel \<Longrightarrow> tail_ok rest \<Longrightarrow>
               p_value fuel (s @ rest) = Parsed (x, rest)"
    by (auto simp: reads_back_def)
  define m where "m = quote k @ CHR '':'' # s"
  have key: "p_chars [] (tl (m @ r)) = Parsed (k, CHR '':'' # s @ r)" for r
    using p_chars_quote [of "[]" k "CHR '':'' # s @ r"] by (simp add: m_def quote_def)
  have hdm: "m @ r = CHR 0x22 # tl (m @ r)" for r
    by (simp add: m_def quote_def)
  have lm: "length s + 3 \<le> length m" by (simp add: m_def quote_def)
  have member: "p_members (Suc n) acc (m @ r) =
      (case skip_ws r of
         [] \<Rightarrow> SyntaxErr
       | c3 # r4 \<Rightarrow>
           if c3 = CHR '','' then p_members n (AList.update k x acc) r4
           else if c3 = CHR ''}'' then Parsed (JObj (own_entries (AList.update k x acc)), r4)
           else SyntaxErr)"
    if "2 * length s < n" "tail_ok r" for n acc r
  proof -
    have "skip_ws (m @ r) = CHR 0x22 # tl (m @ r)"
      using hdm [of r] skip_ws_Cons [of "CHR 0x22" "tl (m @ r)"] by simp
    then show ?thesis
      using key [of r] px [OF that] by (simp add: skip_ws_Cons)
  qed
  show ?case
  proof (cases "ps = []")
    case True
    have "p_members fuel acc (m @ CHR ''}'' # rest) = Parsed (JObj (own_entries (acc @ [p])), rest)"
      if "2 * length m + 1 < fuel" "k \<notin> fst ` set acc" for fuel acc rest
    proof -
      from that(1) lm obtain n where n: "fuel = Suc n" "2 * length s < n" by (cases fuel) auto
      show ?thesis
        using member [OF n(2), of "CHR ''}'' # rest" acc] update_fresh [OF that(2)]
        by (simp add: n(1) skip_ws_Cons p)
    qed
    with True sx show ?thesis by (auto simp: p m_def)
  next
    case False
    with Cons obtain ts where ts: "ser_props ps = Inr ts" "ts \<noteq> []" "starts_ok (hd ts)"
      and pm: "\<And>fuel acc rest. 2 * length (join ts) + 1 < fuel \<Longrightarrow>
                 fst ` set acc \<inter> fst ` set ps = {} \<Longrightarrow>
                 p_members fuel acc (join ts @ CHR ''}'' # rest) =
                   Parsed (JObj (own_entries (acc @ ps)), rest)"
      by auto
    obtain t ts' where tt: "ts = t # ts'" using ts(2) by (cases ts) auto
    have "p_members fuel acc (join (m # ts) @ CHR ''}'' # rest) =
        Parsed (JObj (own_entries (acc @ p # ps)), rest)"
      if "2 * length (join (m # ts)) + 1 < fuel" "fst ` set acc \<inter> fst ` set (p # ps) = {}"
      for fuel acc rest
    proof -
      from that(1) lm obtain n where n: "fuel = Suc n" "2 * length s < n"
          "2 * length (join ts) + 1 < n"
        by (cases fuel) (auto simp: tt)
      have fresh: "k \<notin> fst ` set acc" using that(2) by (auto simp: p)
      have disj: "fst ` set (acc @ [(k, x)]) \<inter> fst ` set ps = {}"
        using that(2) Cons.prems(3) by (auto simp: p)
      show ?thesis
        using member [OF n(2), of "CHR '','' # join ts @ CHR ''}'' # rest" acc]
          pm [OF n(3) disj, of rest] update_fresh [OF fresh, of x]
        by (simp add: n(1) tt skip_ws_Cons p)
    qed
    with sx ts show ?thesis by (auto simp: p m_def)
  qed
qed

lemma json_value_reads_back: "json_value v \<Longrightarrow> \<exists>s. reads_back v s"
proof (induction v)
  case JUndefined
  then show ?case by simp
next
  case JNull
  show ?case using reads_back_atoms(1) by blast
next
  case (JBool b)
  show ?case using reads_back_atoms(2) by blast
next
  case (JNum n)
  then show ?case using reads_back_num [of n] by auto
next
  case (JStr s)
  show ?case using reads_back_atoms(3) by blast
next
  case (JArr xs)
  then have all: "\<forall>x \<in> set xs. \<exists>s. reads_back x s" by auto
  show ?case
  proof (cases "xs = []")
    case True
    have "p_value fuel (''[]'' @ rest) = Parsed (JArr [], rest)" if "0 < fuel" for fuel rest
    proof -
      from that obtain n where "fuel = Suc n" by (cases fuel) auto
      then show ?thesis by (simp add: skip_ws_Cons)
    qed
    then have "reads_back (JArr []) ''[]''"
      by (simp add: reads_back_def starts_ok_def is_ws_def)
    with True show ?thesis by blast
  next
    case False
    from elems_read_back [OF all False]
    obtain ts where ts: "ser_elems xs = Inr ts" "ts \<noteq> []" "starts_ok (hd ts)"
      and pe: "\<And>fuel acc rest. 2 * length (join ts) + 1 < fuel \<Longrightarrow>
                 p_elems fuel acc (join ts @ CHR '']'' # rest) = Parsed (JArr (acc @ xs), rest)"
      by auto
    obtain t ts' where tt: "ts = t # ts'" using ts(2) by (cases ts) auto
    have so: "starts_ok (join ts @ r)" for r
      using starts_ok_join [of t ts' r] ts(3) by (simp add: tt)
    define doc where "doc = CHR ''['' # join ts @ '']''"
    have "p_value fuel (doc @ rest) = Parsed (JArr xs, rest)" if "2 * length doc < fuel"
      for fuel rest
    proof -
      from that obtain n where n: "fuel = Suc n" "2 * length (join ts) + 1 < n"
        by (cases fuel) (auto simp: doc_def)
      obtain c r where cr: "join ts @ CHR '']'' # rest = c # r" "\<not> is_ws c" "c \<noteq> CHR '']''"
        using so [of "CHR '']'' # rest"]
        by (cases "join ts @ CHR '']'' # rest") (auto simp: starts_ok_def)
      have "skip_ws (join ts @ CHR '']'' # rest) = c # r"
        using cr skip_ws_Cons by simp
      then show ?thesis
        using pe [OF n(2), of "[]" rest] cr
        by (simp add: n(1) doc_def skip_ws_Cons)
    qed
    then have "reads_back (JArr xs) doc"
      using ts(1) by (simp add: reads_back_def doc_def starts_ok_def)
    then show ?thesis by blast
  qed
next
  case (JObj ps)
  then have all: "\<forall>p \<in> set ps. \<exists>s. reads_back (snd p) s"
    and dist: "distinct (map fst ps)" and own: "own_entries ps = ps"
    by (auto simp: snds.simps)
  show ?case
  proof (cases "ps = []")
    case True
    have "p_value fuel (''{}'' @ rest) = Parsed (JObj [], rest)" if "0 < fuel" for fuel rest
    proof -
      from that obtain n where "fuel = Suc n" by (cases fuel) auto
      then show ?thesis by (simp add: skip_ws_Cons)
    qed
    then have "reads_back (JObj []) ''{}''"
      by (simp add: reads_back_def starts_ok_def is_ws_def)
    with True show ?thesis by blast
  next
    case False
    from props_read_back [OF all False dist]
    obtain ts where ts: "ser_props ps = Inr ts" "ts \<noteq> []" "starts_ok (hd ts)"
      and pm: "\<And>fuel acc rest. 2 * length (join ts) + 1 < fuel \<Longrightarrow>
                 fst ` set acc \<inter> fst ` set ps = {} \<Longrightarrow>
                 p_members fuel acc (join ts @ CHR ''}'' # rest) =
                   Parsed (JObj (own_entries (acc @ ps)), rest)"
      by auto
    obtain t ts' where tt: "ts = t # ts'" using ts(2) by (cases ts) auto
    have so: "starts_ok (join ts @ r)" for r
      using starts_ok_join [of t ts' r] ts(3) by (simp add: tt)
    define doc where "doc = CHR ''{'' # join ts @ ''}''"
    have "p_value fuel (doc @ rest) = Parsed (JObj ps, rest)" if "2 * length doc < fuel"
      for fuel rest
    proof -
      from that obtain n where n: "fuel = Suc n" "2 * length (join ts) + 1 < n"
        by (cases fuel) (auto simp: doc_def)
      obtain c r where cr: "join ts @ CHR ''}'' # rest = c # r" "\<not> is_ws c" "c \<noteq> CHR ''}''"
        using so [of "CHR ''}'' # rest"]
        by (cases "join ts @ CHR ''}'' # rest") (auto simp: starts_ok_def)
      have "skip_ws (join ts @ CHR ''}'' # rest) = c # r"
        using cr skip_ws_Cons by simp
      then show ?thesis
        using pm [OF n(2), of "[]" rest] cr own
        by (simp add: n(1) doc_def skip_ws_Cons)
    qed
    then have "reads_back (JObj ps) doc"
      using ts(1) by (simp add: reads_back_def doc_def starts_ok_def)
    then show ?thesis by blast
  qed
next
  case (JBack n)
  then show ?case by simp
qed

lemma JSON_round_trip:
  assumes "json_value v"
  shows "\<exists>s. JSON_stringify v = Inr (Some s) \<and> s \<noteq> [] \<and> JSON_parse s = Parsed v"
proof -
  from json_value_reads_back [OF assms] obtain s where s: "reads_back v s" by blast
  then have "p_value (Suc (2 * length s)) (s @ []) = Parsed (v, [])"
    unfolding reads_back_def by (metis lessI tail_ok_simps(4))
  then have "JSON_parse s = Parsed v"
    by (simp add: JSON_parse_def skip_ws_def)
  with s show ?thesis
    by (auto simp: reads_back_def JSON_stringify_def starts_ok_def)
qed

section \<open>The parser never runs out of fuel\<close>

lemma p_chars_shorter: "p_chars acc cs = Parsed (s, r) \<Longrightarrow> length r < length cs"
proof (induction "length cs" arbitrary: acc cs rule: less_induct)
  case less
  show ?case
  proof (cases cs)
    case Nil
    with less.prems show ?thesis by simp
  next
    case (Cons c cs1)
    show ?thesis
    proof (cases cs1)
      case Nil
      with Cons less.prems show ?thesis by (simp split: if_splits)
    next
      case (Cons e r0)
      note cs = \<open>cs = c # cs1\<close> Cons
      have ih: "p_chars acc' cs' = Parsed (s, r) \<Longrightarrow> length cs' < length cs \<Longrightarrow> length r < length cs"
        for acc' cs'
        using less.hyps [of cs' acc'] by simp
      from less.prems consider
          (quote) "r = e # r0"
        | (uni) a b c' d r' and n :: nat where "r0 = a # b # c' # d # r'" "p_chars (acc @ [char_of n]) r' = Parsed (s, r)"
        | (esc) x where "p_chars (acc @ [x]) r0 = Parsed (s, r)"
        | (plain) "p_chars (acc @ [c]) (e # r0) = Parsed (s, r)"
        unfolding cs p_chars.simps(3)
        by (auto simp del: p_chars.simps split: if_splits list.splits option.splits)
      then show ?thesis
      proof cases
        case quote
        then show ?thesis by (simp add: cs)
      next
        case uni
        then show ?thesis using ih [of "acc @ [char_of n]" r'] by (simp add: cs)
      next
        case esc
        then show ?thesis using ih [of "acc @ [x]" r0] by (simp add: cs)
      next
        case plain
        then show ?thesis using ih [of "acc @ [c]" "e # r0"] by (simp add: cs)
      qed
    qed
  qed
qed

lemma p_chars_not_exhausted: "p_chars acc cs \<noteq> Exhausted"
proof (induction "length cs" arbitrary: acc cs rule: less_induct)
  case less
  show ?case
  proof (cases cs)
    case Nil
    then show ?thesis by simp
  next
    case (Cons c cs1)
    show ?thesis
    proof (cases cs1)
      case Nil
      with Cons show ?thesis by simp
    next
      case (Cons e r0)
      note cs = \<open>cs = c # cs1\<close> Cons
      have ih: "length cs' < length cs \<Longrightarrow> p_chars acc' cs' \<noteq> Exhausted" for acc' cs'
        using less.hyps [of cs' acc'] by simp
      show ?thesis
      proof
        assume "p_chars acc cs = Exhausted"
        then consider
            (uni) a b c' d r' and n :: nat where "r0 = a # b # c' # d # r'"
              "p_chars (acc @ [char_of n]) r' = Exhausted"
          | (esc) x where "p_chars (acc @ [x]) r0 = Exhausted"
          | (plain) "p_chars (acc @ [c]) (e # r0) = Exhausted"
          unfolding cs p_chars.simps(3)
          by (auto simp del: p_chars.simps split: if_splits list.splits option.splits)
        then show False
        proof cases
          case uni
          then show ?thesis using ih [of r' "acc @ [char_of n]"] by (simp add: cs)
        next
          case esc
          then show ?thesis using ih [of r0 "acc @ [x]"] by (simp add: cs)
        next
          case plain
          then show ?thesis using ih [of "e # r0" "acc @ [c]"] by (simp add: cs)
        qed
      qed
    qed
  qed
qed

lemma p_digits_length: "length (snd (p_digits acc cs)) \<le> length cs"
  by (induction acc cs rule: p_digits.induct) auto

lemma p_number_digits:
  assumes "ds = d # r0"
  shows "number_outcome ds
     (if \<not> is_digit d then SyntaxErr
      else
        (let (n, rest) = (if d = CHR ''0'' then (0, r0) else p_digits 0 ds) in
         if rest \<noteq> [] \<and> is_digit (hd rest) then SyntaxErr
         else if rest \<noteq> [] \<and> hd rest \<in> {CHR ''.'', CHR ''e'', CHR ''E''} then Unmodelled
         else if neg \<and> n = 0 then Unmodelled
         else if 9007199254740992 \<le> n then Unmodelled
         else Parsed (JNum (if neg then - int n else int n), rest)))"
proof (cases "is_digit d")
  case False
  then show ?thesis by (simp add: number_outcome_def)
next
  case True
  obtain n rest where nr: "(if d = CHR ''0'' then (0, r0) else p_digits 0 ds) = (n, rest)"
    by (cases "if d = CHR ''0'' then (0, r0) else p_digits 0 ds") auto
  have "length (snd (p_digits 0 ds)) \<le> length r0"
    using p_digits_length [of "0 * 10 + digit_val d" r0] True by (simp add: assms)
  with nr have "length rest < length ds"
    by (auto simp: assms simp del: p_digits.simps split: if_splits)
  then show ?thesis
    unfolding nr Let_def number_outcome_def by (auto simp: True)
qed

lemma p_number_outcome: "number_outcome cs (p_number cs)"
proof (cases cs)
  case Nil
  then show ?thesis by (simp add: p_number_def number_outcome_def)
next
  case (Cons c cs')
  show ?thesis
  proof (cases "c = CHR ''-''")
    case False
    have "p_number cs =
      (if \<not> is_digit c then SyntaxErr
       else
        (let (n, rest) = (if c = CHR ''0'' then (0, cs') else p_digits 0 cs) in
         if rest \<noteq> [] \<and> is_digit (hd rest) then SyntaxErr
         else if rest \<noteq> [] \<and> hd rest \<in> {CHR ''.'', CHR ''e'', CHR ''E''} then Unmodelled
         else if False \<and> n = 0 then Unmodelled
         else if 9007199254740992 \<le> n then Unmodelled
         else Parsed (JNum (if False then - int n else int n), rest)))"
      unfolding p_number_def Cons using False by (simp del: p_digits.simps cong: if_cong)
    then show ?thesis using p_number_digits [OF Cons, of False] by simp
  next
    case True
    show ?thesis
    proof (cases cs')
      case Nil
      with Cons True show ?thesis by (simp add: p_number_def number_outcome_def)
    next
      case (Cons d r0)
      have "p_number cs =
        (if \<not> is_digit d then SyntaxErr
         else
          (let (n, rest) = (if d = CHR ''0'' then (0, r0) else p_digits 0 cs') in
           if rest \<noteq> [] \<and> is_digit (hd rest) then SyntaxErr
           else if rest \<noteq> [] \<and> hd rest \<in> {CHR ''.'', CHR ''e'', CHR ''E''} then Unmodelled
           else if True \<and> n = 0 then Unmodelled
           else if 9007199254740992 \<le> n then Unmodelled
           else Parsed (JNum (if True then - int n else int n), rest)))"
        unfolding p_number_def \<open>cs = c # cs'\<close> Cons using True by (simp del: p_digits.simps cong: if_cong)
      then have "number_outcome cs' (p_number cs)"
        using p_number_digits [OF Cons, of True] by simp
      then show ?thesis
        by (auto simp: number_outcome_def \<open>cs = c # cs'\<close>)
    qed
  qed
qed

lemma p_number_shorter: "p_number cs = Parsed (v, r) \<Longrightarrow> length r < length cs"
  using p_number_outcome [of cs] by (auto simp: number_outcome_def)

lemma p_number_not_exhausted: "p_number cs \<noteq> Exhausted"
  using p_number_outcome [of cs] by (auto simp: number_outcome_def)

lemma skip_ws_length: "length (skip_ws cs) \<le> length cs"
  by (simp add: skip_ws_def length_dropWhile_le)

lemma skip_ws_ConsD: "skip_ws cs = c # r \<Longrightarrow> length r < length cs"
  using skip_ws_length [of cs] by simp

lemma parse_shorter_all:
  "\<forall>cs v r. (p_value fuel cs = Parsed (v, r) \<longrightarrow> length r < length cs) \<and>
     (\<forall>acc. p_elems fuel acc cs = Parsed (v, r) \<longrightarrow> length r < length cs) \<and>
     (\<forall>acc. p_members fuel acc cs = Parsed (v, r) \<longrightarrow> length r < length cs)"
proof (induction fuel)
  case 0
  show ?case by simp
next
  case (Suc n)
  have iv: "p_value n cs = Parsed (v, r) \<Longrightarrow> length r < length cs" for cs v r
    using Suc by blast
  have ie: "p_elems n acc cs = Parsed (v, r) \<Longrightarrow> length r < length cs" for cs v r acc
    using Suc by blast
  have im: "p_members n acc cs = Parsed (v, r) \<Longrightarrow> length r < length cs" for cs v r acc
    using Suc by blast
  have v: "length r < length cs" if h: "p_value (Suc n) cs = Parsed (v, r)" for cs v r
  proof -
    from h obtain c r0 where s: "skip_ws cs = c # r0"
      by (cases "skip_ws cs") auto
    have l0: "length r0 < length cs" using s by (rule skip_ws_ConsD)
    from h s consider
        (str) s' where "p_chars [] r0 = Parsed (s', r)"
      | (empty) c' where "skip_ws r0 = c' # r"
      | (arr) "p_elems n [] r0 = Parsed (v, r)"
      | (obj) "p_members n [] r0 = Parsed (v, r)"
      | (num) "p_number (c # r0) = Parsed (v, r)"
      | (lit) "length r \<le> length r0"
      by (auto split: if_splits list.splits parsed.splits)
    then show ?thesis
    proof cases
      case str
      then show ?thesis using p_chars_shorter [of "[]" r0 s' r] l0 by simp
    next
      case empty
      then show ?thesis using skip_ws_ConsD [of r0 c' r] l0 by simp
    next
      case arr
      then show ?thesis using ie [of "[]" r0 v r] l0 by simp
    next
      case obj
      then show ?thesis using im [of "[]" r0 v r] l0 by simp
    next
      case num
      then show ?thesis using p_number_shorter [of "c # r0" v r] l0 by simp
    next
      case lit
      then show ?thesis using l0 by simp
    qed
  qed
  have e: "length r < length cs" if h: "p_elems (Suc n) acc cs = Parsed (v, r)" for cs v r acc
  proof -
    from h obtain x r1 where x: "p_value n cs = Parsed (x, r1)"
      by (cases "p_value n cs") auto
    have l1: "length r1 < length cs" using x by (rule iv)
    from h x obtain c r2 where s: "skip_ws r1 = c # r2"
      by (cases "skip_ws r1") auto
    have l2: "length r2 < length r1" using s by (rule skip_ws_ConsD)
    from h x s consider (more) "p_elems n (acc @ [x]) r2 = Parsed (v, r)" | (fin) "r = r2"
      by (auto split: if_splits)
    then show ?thesis
    proof cases
      case more
      then show ?thesis using ie [of "acc @ [x]" r2 v r] l1 l2 by simp
    next
      case fin
      then show ?thesis using l1 l2 by simp
    qed
  qed
  have m: "length r < length cs" if h: "p_members (Suc n) acc cs = Parsed (v, r)" for cs v r acc
  proof -
    from h obtain q r0 where s0: "skip_ws cs = q # r0"
      by (cases "skip_ws cs") auto
    have l0: "length r0 < length cs" using s0 by (rule skip_ws_ConsD)
    from h s0 obtain k r1 where k: "p_chars [] r0 = Parsed (k, r1)"
      by (cases "p_chars [] r0") (auto split: if_splits)
    have l1: "length r1 < length r0" using k by (rule p_chars_shorter)
    from h s0 k obtain c1 r2 where s1: "skip_ws r1 = c1 # r2"
      by (cases "skip_ws r1") (auto split: if_splits)
    have l2: "length r2 < length r1" using s1 by (rule skip_ws_ConsD)
    from h s0 k s1 obtain x r3 where x: "p_value n r2 = Parsed (x, r3)"
      by (cases "p_value n r2") (auto split: if_splits)
    have l3: "length r3 < length r2" using x by (rule iv)
    from h s0 k s1 x obtain c3 r4 where s3: "skip_ws r3 = c3 # r4"
      by (cases "skip_ws r3") (auto split: if_splits)
    have l4: "length r4 < length r3" using s3 by (rule skip_ws_ConsD)
    from h s0 k s1 x s3 consider
        (more) "p_members n (AList.update k x acc) r4 = Parsed (v, r)" | (fin) "r = r4"
      by (auto split: if_splits)
    then show ?thesis
    proof cases
      case more
      then show ?thesis using im [of "AList.update k x acc" r4 v r] l0 l1 l2 l3 l4 by simp
    next
      case fin
      then show ?thesis using l0 l1 l2 l3 l4 by simp
    qed
  qed
  show ?case using v e m by blast
qed

lemma p_value_shorter: "p_value fuel cs = Parsed (v, r) \<Longrightarrow> length r < length cs"
  using parse_shorter_all [of fuel] by blast

lemma parse_not_exhausted_all:
  "\<forall>cs. (2 * length cs < fuel \<longrightarrow> p_value fuel cs \<noteq> Exhausted) \<and>
     (\<forall>acc. 2 * length cs + 1 < fuel \<longrightarrow> p_elems fuel acc cs \<noteq> Exhausted) \<and>
     (\<forall>acc. 2 * length cs + 1 < fuel \<longrightarrow> p_members fuel acc cs \<noteq> Exhausted)"
proof (induction fuel)
  case 0
  show ?case by simp
next
  case (Suc n)
  have iv: "2 * length cs < n \<Longrightarrow> p_value n cs \<noteq> Exhausted" for cs
    using Suc by blast
  have ie: "2 * length cs + 1 < n \<Longrightarrow> p_elems n acc cs \<noteq> Exhausted" for cs acc
    using Suc by blast
  have im: "2 * length cs + 1 < n \<Longrightarrow> p_members n acc cs \<noteq> Exhausted" for cs acc
    using Suc by blast
  have v: "p_value (Suc n) cs \<noteq> Exhausted" if f: "2 * length cs < Suc n" for cs
  proof
    assume h: "p_value (Suc n) cs = Exhausted"
    then obtain c r0 where s: "skip_ws cs = c # r0"
      by (cases "skip_ws cs") auto
    have l0: "length r0 < length cs" using s by (rule skip_ws_ConsD)
    from h s consider
        (str) "p_chars [] r0 = Exhausted"
      | (arr) "p_elems n [] r0 = Exhausted"
      | (obj) "p_members n [] r0 = Exhausted"
      | (num) "p_number (c # r0) = Exhausted"
      by (auto split: if_splits list.splits parsed.splits)
    then show False
    proof cases
      case str
      then show ?thesis using p_chars_not_exhausted by blast
    next
      case arr
      then show ?thesis using ie [of r0 "[]"] l0 f by simp
    next
      case obj
      then show ?thesis using im [of r0 "[]"] l0 f by simp
    next
      case num
      then show ?thesis using p_number_not_exhausted by blast
    qed
  qed
  have e: "p_elems (Suc n) acc cs \<noteq> Exhausted" if f: "2 * length cs + 1 < Suc n" for cs acc
  proof
    assume h: "p_elems (Suc n) acc cs = Exhausted"
    have nv: "p_value n cs \<noteq> Exhausted" using iv [of cs] f by simp
    with h obtain x r1 where x: "p_value n cs = Parsed (x, r1)"
      by (cases "p_value n cs") auto
    have l1: "length r1 < length cs" using x by (rule p_value_shorter)
    from h x obtain c r2 where s: "skip_ws r1 = c # r2"
      by (cases "skip_ws r1") auto
    have l2: "length r2 < length r1" using s by (rule skip_ws_ConsD)
    from h x s have "p_elems n (acc @ [x]) r2 = Exhausted"
      by (auto split: if_splits)
    then show False using ie [of r2 "acc @ [x]"] l1 l2 f by simp
  qed
  have m: "p_members (Suc n) acc cs \<noteq> Exhausted" if f: "2 * length cs + 1 < Suc n" for cs acc
  proof
    assume h: "p_members (Suc n) acc cs = Exhausted"
    then obtain q r0 where s0: "skip_ws cs = q # r0"
      by (cases "skip_ws cs") auto
    have l0: "length r0 < length cs" using s0 by (rule skip_ws_ConsD)
    from h s0 p_chars_not_exhausted [of "[]" r0] obtain k r1 where k: "p_chars [] r0 = Parsed (k, r1)"
      by (cases "p_chars [] r0") (auto split: if_splits)
    have l1: "length r1 < length r0" using k by (rule p_chars_shorter)
    from h s0 k obtain c1 r2 where s1: "skip_ws r1 = c1 # r2"
      by (cases "skip_ws r1") (auto split: if_splits)
    have l2: "length r2 < length r1" using s1 by (rule skip_ws_ConsD)
    have nv: "p_value n r2 \<noteq> Exhausted" using iv [of r2] l0 l1 l2 f by simp
    with h s0 k s1 obtain x r3 where x: "p_value n r2 = Parsed (x, r3)"
      by (cases "p_value n r2") (auto split: if_splits)
    have l3: "length r3 < length r2" using x by (rule p_value_shorter)
    from h s0 k s1 x obtain c3 r4 where s3: "skip_ws r3 = c3 # r4"
      by (cases "skip_ws r3") (auto split: if_splits)
    have l4: "length r4 < length r3" using s3 by (rule skip_ws_ConsD)
    from h s0 k s1 x s3 have "p_members n (AList.update k x acc) r4 = Exhausted"
      by (auto split: if_splits)
    then show False using im [of r4 "AList.update k x acc"] l0 l1 l2 l3 l4 f by simp
  qed
  show ?case using v e m by blast
qed

lemma JSON_parse_total: "JSON_parse s \<noteq> Exhausted"
proof -
  have "p_value (Suc (2 * length s)) s \<noteq> Exhausted"
    using parse_not_exhausted_all [of "Suc (2 * length s)"] by simp
  then show ?thesis
    by (auto simp: JSON_parse_def simp del: p_value.simps split: parsed.splits)
qed

section \<open>Storage\<close>




lemma StorageManager_get_undefined_iff:
  "StorageManager_get e k d = None \<longleftrightarrow>
     (\<exists>item. getItem e k = Some item \<and> item \<noteq> [] \<and> JSON_parse item = Unmodelled)"
  using JSON_parse_total
  by (auto simp: StorageManager_get_def Let_def split: option.splits parsed.splits)



section \<open>Debounce\<close>








section \<open>Notifications\<close>

lemma remove_node_idem: "remove_node n (remove_node n st) = remove_node n st"
  by (simp add: remove_node_def)






section \<open>Charts\<close>

lemma foldl_push_series:
  "foldl push_series acc es = acc @ map (line_series \<circ> snd) (filter (has_history \<circ> snd) es)"
  by (induction es arbitrary: acc) (simp_all add: push_series_def)

lemma series_trend_option:
  "series (trend_option (Some m)) = map (line_series \<circ> snd) (filter (has_history \<circ> snd) (own_entries m))"
  by (simp add: trend_option_def foldl_push_series base_option_def)

lemma own_entries_plain:
  "\<forall>p \<in> set m. array_index (fst p) = None \<Longrightarrow> own_entries m = m"
  by (simp add: own_entries_def filter_empty_conv cong: filter_cong)

lemma initChart_present:
  assumes "chartId \<in> set (elements st)"
  shows "\<exists>chart st1. echarts_init st chartId = (chart, st1) \<and>
     initChart st chartId opts =
       (Some chart, st1\<lparr>applied := applied st1 @ [(chart, opts)],
                       charts := AList.update chartId chart (charts st),
                       resize_listeners := resize_listeners st @ [chart]\<rparr>)"
  using assms
  by (auto simp: initChart_def echarts_init_def Let_def split: option.splits)

lemma distinct_update_keys:
  "distinct (map fst al) \<Longrightarrow> distinct (map fst (AList.update k v al))"
  by (simp add: distinct_update)

lemma twice_fresh:
  "snd (initChart (snd (initChart page0 ''c1'' 10)) ''c1'' 20) =
     page0\<lparr>bound := [(''c1'', 1)], next_instance := 2, applied := [(0, 10), (1, 20)],
           charts := [(''c1'', 1)], resize_listeners := [0, 1]\<rparr>"
  by (simp add: initChart_def echarts_init_def page0_def new_ChartManager_def)

lemma twice_reuse:
  "snd (initChart (snd (initChart page1 ''c1'' 10)) ''c1'' 20) =
     page1\<lparr>bound := [(''c1'', 0)], next_instance := 1, applied := [(0, 10), (0, 20)],
           charts := [(''c1'', 0)], resize_listeners := [0, 0]\<rparr>"
  by (simp add: initChart_def echarts_init_def page1_def new_ChartManager_def)

lemma sensors0_plain: "\<forall>p \<in> set sensors0. array_index (fst p) = None"
  by (simp add: sensors0_def array_index_def is_digit_def)

lemma sensors0_created:
  "createSensorTrendChart page2 ''c1'' (Some sensors0) =
     (Some 0, page2\<lparr>bound := [(''c1'', 0)], next_instance := 1,
                    applied := [(0, trend_option (Some sensors0))],
                    charts := [(''c1'', 0)], resize_listeners := [0]\<rparr>)"
  by (simp add: createSensorTrendChart_def initChart_def echarts_init_def page2_def
      new_ChartManager_def)

chapter \<open>The claims\<close>

section \<open>C1: one handle per chart id, and the resize listeners\<close>

text \<open>
  C1, as amended. For every chart identifier whose container exists,
  \<open>initChart\<close> returns a handle and registers it under the identifier,
  replacing the handle registered before: the registry keeps one entry per identifier,
  and the handles of the other identifiers stay as they were. The resize listener of the
  replaced handle is not detached: the listeners of the window are the ones before the
  call followed by a new one for the returned handle, so a window resize resizes every
  handle that \<open>initChart\<close> ever returned, once for each call.
\<close>

theorem initChart_replaces_keeps_listeners:
  "chartId \<in> set (elements st) \<and> initChart st chartId opts = (r, st') \<longrightarrow>
     (\<exists>chart. r = Some chart \<and>
        map_of (charts st') chartId = Some chart \<and>
        (\<forall>other. other \<noteq> chartId \<longrightarrow> map_of (charts st') other = map_of (charts st) other) \<and>
        (distinct (map fst (charts st)) \<longrightarrow> distinct (map fst (charts st'))) \<and>
        resize_listeners st' = resize_listeners st @ [chart] \<and>
        resized (window_resize st') = resized st @ resize_listeners st @ [chart])"
proof (intro impI)
  assume h: "chartId \<in> set (elements st) \<and> initChart st chartId opts = (r, st')"
  with initChart_present [of chartId st opts]
  obtain chart st1 where e: "echarts_init st chartId = (chart, st1)"
    and r: "r = Some chart"
    and s: "st' = st1\<lparr>applied := applied st1 @ [(chart, opts)],
                       charts := AList.update chartId chart (charts st),
                       resize_listeners := resize_listeners st @ [chart]\<rparr>"
    by auto
  have rs: "resized st1 = resized st"
    using e by (auto simp: echarts_init_def split: option.splits if_splits)
  show "\<exists>chart. r = Some chart \<and>
        map_of (charts st') chartId = Some chart \<and>
        (\<forall>other. other \<noteq> chartId \<longrightarrow> map_of (charts st') other = map_of (charts st) other) \<and>
        (distinct (map fst (charts st)) \<longrightarrow> distinct (map fst (charts st'))) \<and>
        resize_listeners st' = resize_listeners st @ [chart] \<and>
        resized (window_resize st') = resized st @ resize_listeners st @ [chart]"
    using r s rs by (simp add: update_conv' distinct_update_keys window_resize_def)
qed

text \<open>
  After two calls for the same identifier, the registry holds the second handle alone
  and the window holds both listeners.
\<close>

theorem initChart_replaces_keeps_listeners_witness:
  "map_of (charts (snd (initChart (snd (initChart page0 ''c1'' 10)) ''c1'' 20))) ''c1'' = Some 1 \<and>
   resize_listeners (snd (initChart (snd (initChart page0 ''c1'' 10)) ''c1'' 20)) =
     resize_listeners (snd (initChart page0 ''c1'' 10)) @ [1]"
proof -
  have e: "''c1'' \<in> set (elements (snd (initChart page0 ''c1'' 10)))"
    by (simp add: initChart_def echarts_init_def page0_def new_ChartManager_def)
  have f: "fst (initChart (snd (initChart page0 ''c1'' 10)) ''c1'' 20) = Some 1"
    by (simp add: initChart_def echarts_init_def page0_def new_ChartManager_def)
  have p: "initChart (snd (initChart page0 ''c1'' 10)) ''c1'' 20 =
      (Some 1, snd (initChart (snd (initChart page0 ''c1'' 10)) ''c1'' 20))"
    using f by (cases "initChart (snd (initChart page0 ''c1'' 10)) ''c1'' 20") simp
  show ?thesis
    using initChart_replaces_keeps_listeners [of "''c1''" "snd (initChart page0 ''c1'' 10)" 20
        "Some 1" "snd (initChart (snd (initChart page0 ''c1'' 10)) ''c1'' 20)"] e p
    by simp
qed

text \<open>
  C1 as stated fails: it asks that the listener of the prior handle be detached, so that
  a window resize reaches the registered instance once. With an engine that makes a
  fresh instance per call, the replaced instance 0 is still resized; with an engine that
  returns the instance bound to the container, that instance is resized twice.
\<close>

theorem initChart_listener_counterexample:
  "charts (snd (initChart (snd (initChart page0 ''c1'' 10)) ''c1'' 20)) = [(''c1'', 1)] \<and>
   resize_listeners (snd (initChart (snd (initChart page0 ''c1'' 10)) ''c1'' 20)) = [0, 1] \<and>
   resized (window_resize (snd (initChart (snd (initChart page0 ''c1'' 10)) ''c1'' 20))) = [0, 1] \<and>
   charts (snd (initChart (snd (initChart page1 ''c1'' 10)) ''c1'' 20)) = [(''c1'', 0)] \<and>
   resize_listeners (snd (initChart (snd (initChart page1 ''c1'' 10)) ''c1'' 20)) = [0, 0] \<and>
   resized (window_resize (snd (initChart (snd (initChart page1 ''c1'' 10)) ''c1'' 20))) = [0, 0]"
  unfolding twice_fresh twice_reuse
  by (simp add: window_resize_def page0_def page1_def new_ChartManager_def)

section \<open>C2: debounce coalesces a burst\<close>



section \<open>C3: get after set\<close>



section \<open>C4: set of a value that cannot be serialized\<close>

text \<open>
  C4. For every key \<open>k\<close> and every value \<open>v\<close> whose
  serialization throws, \<open>StorageManager.set(k, v)\<close> returns
  \<open>false\<close>, having logged the error; the stored items are unchanged, so
  every later \<open>get\<close> returns what it returned before the call.
\<close>

theorem set_unserializable:
  "JSON_stringify v = Inl err \<longrightarrow>
     StorageManager_set e k v = (False, console_error e msg_store_failed err) \<and>
     items (snd (StorageManager_set e k v)) = items e \<and>
     (\<forall>k' d. map_option fst (StorageManager_get (snd (StorageManager_set e k v)) k' d) =
             map_option fst (StorageManager_get e k' d))"
  by (auto simp: StorageManager_set_def StorageManager_get_def console_error_def getItem_def Let_def
      split: option.splits parsed.splits)

text \<open>
  An object that contains itself: the value stored before under the key is still read,
  and an absent key still gives the default.
\<close>

theorem set_unserializable_witness:
  "JSON_stringify cyclic0 = Inl TypeError \<and>
   StorageManager_set env0 ''theme'' cyclic0 = (False, console_error env0 msg_store_failed TypeError) \<and>
   map_option fst (StorageManager_get (snd (StorageManager_set env0 ''theme'' cyclic0)) ''theme'' JNull) =
     Some (JStr ''dark'') \<and>
   map_option fst (StorageManager_get (snd (StorageManager_set env0 ''zoom'' cyclic0)) ''zoom'' (JNum 3)) =
     Some (JNum 3)"
proof -
  have c: "JSON_stringify cyclic0 = Inl TypeError"
    by (simp add: JSON_stringify_def cyclic0_def)
  have p: "JSON_parse ''\"dark\"'' = Parsed (JStr ''dark'')"
    using JSON_round_trip [of "JStr ''dark''"]
    by (simp add: JSON_stringify_def quote_def escape_char_def)
  have g: "map_option fst (StorageManager_get env0 ''theme'' JNull) = Some (JStr ''dark'')"
      "map_option fst (StorageManager_get env0 ''zoom'' (JNum 3)) = Some (JNum 3)"
    by (simp_all add: StorageManager_get_def getItem_def env0_def p default_param_def)
  note t1 = set_unserializable [of cyclic0 TypeError env0 "''theme''", rule_format, OF c]
  note t2 = set_unserializable [of cyclic0 TypeError env0 "''zoom''", rule_format, OF c]
  have s: "StorageManager_set env0 ''theme'' cyclic0 =
      (False, console_error env0 msg_store_failed TypeError)"
    using t1 by (rule conjunct1)
  have g1: "map_option fst (StorageManager_get (snd (StorageManager_set env0 ''theme'' cyclic0)) ''theme'' JNull) =
      map_option fst (StorageManager_get env0 ''theme'' JNull)"
    using t1 by blast
  have g2: "map_option fst (StorageManager_get (snd (StorageManager_set env0 ''zoom'' cyclic0)) ''zoom'' (JNum 3)) =
      map_option fst (StorageManager_get env0 ''zoom'' (JNum 3))"
    using t2 by blast
  show ?thesis
    using c s g1 g2 g by (simp only: simp_thms)
qed

section \<open>C5: dismissing a notification\<close>




section \<open>C6: the buckets of formatTime\<close>

text \<open>
  C6, as amended. A missing timestamp gives the "never updated" label, and so does the
  number \<open>0\<close>, which the guard \<open>!date\<close> treats like
  \<open>null\<close>. For every other timestamp \<open>T\<close> (a non-zero number of
  epoch milliseconds within the range of \<open>Date\<close>, or a \<open>Date\<close>
  object) with elapsed time \<open>e = now - T \<ge> 0\<close>: \<open>e < 60000\<close>
  gives "just now"; \<open>60000 \<le> e < 3600000\<close> gives
  \<open>floor (e / 60000)\<close> followed by the minutes label;
  \<open>3600000 \<le> e < 86400000\<close> gives \<open>floor (e / 3600000)\<close>
  followed by the hours label; \<open>86400000 \<le> e\<close> gives
  \<open>floor (e / 86400000)\<close> followed by the days label. The upper bounds are
  strict, so each boundary value falls in the coarser bucket.
\<close>

theorem formatTime_buckets:
  "formatTime now Missing = label_never \<and>
   formatTime now (Millis 0) = label_never \<and>
   (\<not> falsy date \<and> new_Date date = Some T \<and> 0 \<le> now - T \<longrightarrow>
      (now - T < 60000 \<longrightarrow> formatTime now date = label_just_now) \<and>
      (60000 \<le> now - T \<and> now - T < 3600000 \<longrightarrow>
         formatTime now date = show_int ((now - T) div 60000) @ label_minutes) \<and>
      (3600000 \<le> now - T \<and> now - T < 86400000 \<longrightarrow>
         formatTime now date = show_int ((now - T) div 3600000) @ label_hours) \<and>
      (86400000 \<le> now - T \<longrightarrow>
         formatTime now date = show_int ((now - T) div 86400000) @ label_days))"
  by (simp add: formatTime_def Let_def)

text \<open>
  The three boundaries, one millisecond below the first, and a missing timestamp.
\<close>

theorem formatTime_buckets_witness:
  "formatTime 1700000059999 (Millis 1700000000000) = label_just_now \<and>
   formatTime 1700000060000 (Millis 1700000000000) = ''1'' @ label_minutes \<and>
   formatTime 1700003600000 (DateObj 1700000000000) = ''1'' @ label_hours \<and>
   formatTime 1700086400000 (Millis 1700000000000) = ''1'' @ label_days \<and>
   formatTime 1700000059999 Missing = label_never"
  using formatTime_buckets [of 1700000059999 "Millis 1700000000000" 1700000000000]
    formatTime_buckets [of 1700000060000 "Millis 1700000000000" 1700000000000]
    formatTime_buckets [of 1700003600000 "DateObj 1700000000000" 1700000000000]
    formatTime_buckets [of 1700086400000 "Millis 1700000000000" 1700000000000]
  by (simp add: time_clip_def show_int_def show_nat_digit digit_char_def)

text \<open>
  C6 as stated fails for the timestamp \<open>0\<close> (the epoch itself, a non-null
  timestamp): three days after the epoch the claim asks for "3 days ago", and the code
  answers "never updated".
\<close>

theorem formatTime_epoch_counterexample:
  "formatTime 259200000 (Millis 0) = label_never \<and>
   formatTime 259200000 (Millis 0) \<noteq> show_int ((259200000 - 0) div 86400000) @ label_days"
  by (simp add: formatTime_def label_never_def label_days_def show_int_def show_nat_digit
      digit_char_def)

section \<open>C7: the series of the trend chart\<close>

text \<open>
  C7, as amended. For every sensor map given to \<open>createSensorTrendChart\<close> on
  an existing container, a handle is returned and registered, and the option applied to
  it has exactly one smoothed line series of (timestamp, value) pairs per entry whose
  history is non-empty, in the order in which \<open>Object.entries\<close> enumerates
  the map: the keys that are array indices first, in ascending numeric order, then the
  other keys in insertion order (so in insertion order when no key is an array index).
  Entries whose history is empty or missing are skipped. \<open>resizeAll\<close>
  afterwards resizes the registered charts and nothing else.
\<close>

theorem createSensorTrendChart_series:
  "chartId \<in> set (elements st) \<and> createSensorTrendChart st chartId (Some m) = (r, st') \<longrightarrow>
     (\<exists>chart. r = Some chart \<and>
        applied st' = applied st @ [(chart, trend_option (Some m))] \<and>
        map_of (charts st') chartId = Some chart) \<and>
     series (trend_option (Some m)) =
       map (line_series \<circ> snd) (filter (has_history \<circ> snd) (own_entries m)) \<and>
     ((\<forall>p \<in> set m. array_index (fst p) = None) \<longrightarrow>
        series (trend_option (Some m)) = map (line_series \<circ> snd) (filter (has_history \<circ> snd) m)) \<and>
     resized (resizeAll st') = resized st' @ map snd (charts st')"
proof (intro impI)
  assume h: "chartId \<in> set (elements st) \<and> createSensorTrendChart st chartId (Some m) = (r, st')"
  with initChart_present [of chartId st "trend_option (Some m)"]
  obtain chart st1 where e: "echarts_init st chartId = (chart, st1)"
    and r: "r = Some chart"
    and s: "st' = st1\<lparr>applied := applied st1 @ [(chart, trend_option (Some m))],
                       charts := AList.update chartId chart (charts st),
                       resize_listeners := resize_listeners st @ [chart]\<rparr>"
    by (auto simp: createSensorTrendChart_def)
  have a: "applied st1 = applied st"
    using e by (auto simp: echarts_init_def split: option.splits if_splits)
  have plain: "series (trend_option (Some m)) = map (line_series \<circ> snd) (filter (has_history \<circ> snd) m)"
    if "\<forall>p \<in> set m. array_index (fst p) = None"
    using own_entries_plain [OF that] by (simp add: series_trend_option)
  show "(\<exists>chart. r = Some chart \<and>
        applied st' = applied st @ [(chart, trend_option (Some m))] \<and>
        map_of (charts st') chartId = Some chart) \<and>
     series (trend_option (Some m)) =
       map (line_series \<circ> snd) (filter (has_history \<circ> snd) (own_entries m)) \<and>
     ((\<forall>p \<in> set m. array_index (fst p) = None) \<longrightarrow>
        series (trend_option (Some m)) = map (line_series \<circ> snd) (filter (has_history \<circ> snd) m)) \<and>
     resized (resizeAll st') = resized st' @ map snd (charts st')"
    using r s a plain by (simp add: series_trend_option update_conv' resizeAll_def)
qed

text \<open>
  The map of the specification, with a third sensor that has no history: one series,
  "Humidity", and \<open>resizeAll\<close> resizes the one registered chart.
\<close>

theorem createSensorTrendChart_series_witness:
  "fst (createSensorTrendChart page2 ''c1'' (Some sensors0)) = Some 0 \<and>
   series (trend_option (Some sensors0)) =
     [\<lparr>series_name = ''Humidity'', series_type = ''line'',
       series_data = [(JNum 1000, JNum 20)], smooth = True\<rparr>] \<and>
   resized (resizeAll (snd (createSensorTrendChart page2 ''c1'' (Some sensors0)))) = [0]"
proof -
  note t = createSensorTrendChart_series [of "''c1''" page2 sensors0 "Some 0"
      "page2\<lparr>bound := [(''c1'', 0)], next_instance := 1,
                    applied := [(0, trend_option (Some sensors0))],
                    charts := [(''c1'', 0)], resize_listeners := [0]\<rparr>", rule_format]
  have e: "''c1'' \<in> set (elements page2)"
    by (simp add: page2_def new_ChartManager_def)
  note u = t [OF conjI [OF e sensors0_created]]
  have s1: "series (trend_option (Some sensors0)) =
      map (line_series \<circ> snd) (filter (has_history \<circ> snd) sensors0)"
    using u [THEN conjunct2, THEN conjunct2, THEN conjunct1] sensors0_plain by (rule mp)
  have s2: "series (trend_option (Some sensors0)) =
     [\<lparr>series_name = ''Humidity'', series_type = ''line'',
       series_data = [(JNum 1000, JNum 20)], smooth = True\<rparr>]"
    unfolding s1 by (simp add: sensors0_def has_history_def line_series_def)
  have s3: "resized (resizeAll (snd (createSensorTrendChart page2 ''c1'' (Some sensors0)))) = [0]"
    unfolding sensors0_created snd_conv u [THEN conjunct2, THEN conjunct2, THEN conjunct2]
    by (simp add: page2_def new_ChartManager_def)
  have s4: "fst (createSensorTrendChart page2 ''c1'' (Some sensors0)) = Some 0"
    by (simp add: sensors0_created)
  show ?thesis using s4 s2 s3 by (simp only: simp_thms)
qed

text \<open>
  C7 as stated fails on the order: the claim asks for the insertion order of the map.
  With the sensor ids \<open>s2\<close> and \<open>7\<close> inserted in this order, the
  series of sensor \<open>7\<close> comes first.
\<close>

theorem createSensorTrendChart_order_counterexample:
  "map fst sensors1 = [''s2'', ''7''] \<and>
   map series_name (series (trend_option (Some sensors1))) = [''Light'', ''Humidity'']"
  by (simp add: series_trend_option sensors1_def own_entries_def array_index_def is_digit_def
      digit_val_def has_history_def line_series_def)

section \<open>C8: a missing container\<close>

text \<open>
  C8. For every chart identifier whose container does not exist,
  \<open>initChart\<close> logs an error and returns \<open>null\<close>, and so does
  \<open>createSensorTrendChart\<close>, which delegates to it; the registry and the
  resize listeners are unchanged.
\<close>

theorem initChart_missing_container:
  "(chartId \<notin> set (elements st) \<longrightarrow>
      initChart st chartId opts =
        (None, st\<lparr>error_log := error_log st @ [(msg_no_container, chartId)]\<rparr>) \<and>
      charts (snd (initChart st chartId opts)) = charts st \<and>
      resize_listeners (snd (initChart st chartId opts)) = resize_listeners st) \<and>
   (cid \<notin> set (elements ct) \<longrightarrow>
      createSensorTrendChart ct cid sensorData =
        (None, ct\<lparr>error_log := error_log ct @ [(msg_no_container, cid)]\<rparr>) \<and>
      charts (snd (createSensorTrendChart ct cid sensorData)) = charts ct \<and>
      resize_listeners (snd (createSensorTrendChart ct cid sensorData)) = resize_listeners ct)"
  by (simp add: initChart_def createSensorTrendChart_def)

text \<open>
  Both entry points on an identifier that is not in the page.
\<close>

theorem initChart_missing_container_witness:
  "initChart page0 ''nope'' 5 = (None, page0\<lparr>error_log := [(msg_no_container, ''nope'')]\<rparr>) \<and>
   charts (snd (initChart page0 ''nope'' 5)) = [] \<and>
   createSensorTrendChart page2 ''c9'' None =
     (None, page2\<lparr>error_log := [(msg_no_container, ''c9'')]\<rparr>)"
proof -
  have a: "''nope'' \<notin> set (elements page0)" "''c9'' \<notin> set (elements page2)"
      "error_log page0 = []" "error_log page2 = []" "charts page0 = []"
    by (simp_all add: page0_def page2_def new_ChartManager_def)
  show ?thesis
    using initChart_missing_container [of "''nope''" page0 5 "''c9''" page2 None] a
    by simp
qed

section \<open>C9: set of undefined\<close>



section \<open>C10: timestamps in the future\<close>



end
